theory Spec2Isabelle
  imports Main
begin

section \<open>Python values used by the editor\<close>

text \<open>
  The editor (\<^verbatim>\<open>src/djacarta.py\<close>, the base variant, and \<^verbatim>\<open>src/etc/djacarta.py\<close>, the
  extended variant) keeps its document as a Python list of strings and its cursor as
  unbounded integers. Integers are modelled as \<^typ>\<open>int\<close>, lines as \<^typ>\<open>string\<close>
  (characters with code points below 256), the document as a \<^typ>\<open>string list\<close>.
  Every exception the modelled code can raise is a value of \<open>error\<close>; a function that can
  raise returns \<open>error + 'a\<close> with \<open>Inl\<close> for the exception.
\<close>

datatype error = IndexError | ValueError | OverflowError | OSError | OutsideModel

text \<open>
  \<open>OutsideModel\<close> is not a Python exception: it marks the one place where the source
  goes on with a value that \<^typ>\<open>char\<close> cannot hold (\<^verbatim>\<open>chr(k)\<close> for \<open>256 \<le> k \<le> 0x10FFFF\<close>).
\<close>

definition and_then :: "error + 'a \<Rightarrow> ('a \<Rightarrow> error + 'b) \<Rightarrow> error + 'b" where
  "and_then m f = (case m of Inl e \<Rightarrow> Inl e | Inr v \<Rightarrow> f v)"

abbreviation TAB :: char where
  "TAB \<equiv> CHR 0x09"

abbreviation SPC :: char where
  "SPC \<equiv> CHR 0x20"

definition py_len :: "'a list \<Rightarrow> int" where
  "py_len xs = int (length xs)"

text \<open>
  An index into a list: \<open>0 .. len - 1\<close> from the front, \<open>- len .. - 1\<close> from the back;
  \<open>None\<close> is Python's IndexError.
\<close>

definition py_index :: "'a list \<Rightarrow> int \<Rightarrow> nat option" where
  "py_index xs i =
     (if 0 \<le> i \<and> i < py_len xs then Some (nat i)
      else if i < 0 \<and> - py_len xs \<le> i then Some (nat (py_len xs + i))
      else None)"

text \<open>\<^verbatim>\<open>xs[i]\<close>, \<^verbatim>\<open>xs[i] = v\<close> and \<^verbatim>\<open>del xs[i]\<close>.\<close>

definition py_get :: "'a list \<Rightarrow> int \<Rightarrow> error + 'a" where
  "py_get xs i = (case py_index xs i of None \<Rightarrow> Inl IndexError | Some j \<Rightarrow> Inr (xs ! j))"

definition py_set :: "'a list \<Rightarrow> int \<Rightarrow> 'a \<Rightarrow> error + 'a list" where
  "py_set xs i v =
     (case py_index xs i of None \<Rightarrow> Inl IndexError | Some j \<Rightarrow> Inr (xs[j := v]))"

definition py_del :: "'a list \<Rightarrow> int \<Rightarrow> error + 'a list" where
  "py_del xs i =
     (case py_index xs i of
        None \<Rightarrow> Inl IndexError
      | Some j \<Rightarrow> Inr (take j xs @ drop (Suc j) xs))"

text \<open>The clamping of one slice bound: \<^verbatim>\<open>xs[a:b]\<close> never raises.\<close>

definition py_bound :: "'a list \<Rightarrow> int \<Rightarrow> nat" where
  "py_bound xs i = (if i < 0 then nat (max 0 (py_len xs + i)) else nat (min (py_len xs) i))"

definition py_slice :: "'a list \<Rightarrow> int \<Rightarrow> int \<Rightarrow> 'a list" where
  "py_slice xs a b = take (py_bound xs b - py_bound xs a) (drop (py_bound xs a) xs)"

text \<open>\<^verbatim>\<open>xs[:b]\<close> and \<^verbatim>\<open>xs[a:]\<close>.\<close>

definition py_upto :: "'a list \<Rightarrow> int \<Rightarrow> 'a list" where
  "py_upto xs b = take (py_bound xs b) xs"

definition py_from :: "'a list \<Rightarrow> int \<Rightarrow> 'a list" where
  "py_from xs a = drop (py_bound xs a) xs"

text \<open>\<^verbatim>\<open>xs.insert(i, v)\<close>: the index is clamped like a slice bound, it never raises.\<close>

definition py_insert :: "'a list \<Rightarrow> int \<Rightarrow> 'a \<Rightarrow> 'a list" where
  "py_insert xs i v = take (py_bound xs i) xs @ [v] @ drop (py_bound xs i) xs"

text \<open>
  \<^verbatim>\<open>chr(k)\<close>: OverflowError when \<open>k\<close> does not fit a C \<^verbatim>\<open>int\<close> (below \<open>- 2^31\<close> or from
  \<open>2^31\<close> on), ValueError for any other \<open>k\<close> outside \<open>0 .. 0x10FFFF\<close>; a code point from
  256 on is a character the model does not have.
\<close>

definition py_chr :: "int \<Rightarrow> error + char" where
  "py_chr k =
     (if k < - 2147483648 \<or> k \<ge> 2147483648 then Inl OverflowError
      else if k < 0 \<or> k > 0x10FFFF then Inl ValueError
      else if k < 256 then Inr (char_of k)
      else Inl OutsideModel)"

text \<open>\<^verbatim>\<open>s * n\<close> for a one-character string \<open>s\<close>: empty when \<open>n \<le> 0\<close>.\<close>

definition py_rep :: "char \<Rightarrow> int \<Rightarrow> string" where
  "py_rep c n = replicate (nat n) c"

section \<open>Coordinate mapper\<close>

text \<open>
  \<^verbatim>\<open>bufpos2vispos(text, tabsz, offs)\<close>, the same in both variants. The loop reads
  \<^verbatim>\<open>text[i]\<close> only for \<open>0 \<le> i < offs \<le> len(text)\<close>, so the read is in range and is
  written \<open>text ! i\<close>.
\<close>

function bufpos2vispos_loop :: "string \<Rightarrow> int \<Rightarrow> int \<Rightarrow> nat \<Rightarrow> int \<Rightarrow> int" where
  "bufpos2vispos_loop text tabsz offs i ret =
     (if int i < offs
      then bufpos2vispos_loop text tabsz offs (Suc i)
             (if text ! i = TAB then ret + tabsz else ret + 1)
      else ret)"
  by pat_completeness auto
termination
  by (relation "measure (\<lambda>(text, tabsz, offs, i, ret). nat (offs - int i))") auto

declare bufpos2vispos_loop.simps [simp del]

definition bufpos2vispos :: "string \<Rightarrow> int \<Rightarrow> int \<Rightarrow> int" where
  "bufpos2vispos text tabsz offs =
     (if offs > py_len text then py_len text
      else bufpos2vispos_loop text tabsz offs 0 0)"

text \<open>
  \<^verbatim>\<open>vispos2bufpos(text, tabsz, offs)\<close>, the same in both variants; the source's comment
  calls it the inverse of \<^verbatim>\<open>bufpos2vispos\<close>.
\<close>

function vispos2bufpos_loop :: "string \<Rightarrow> int \<Rightarrow> int \<Rightarrow> nat \<Rightarrow> int \<Rightarrow> int" where
  "vispos2bufpos_loop text tabsz offs i ret =
     (if int i < offs
      then vispos2bufpos_loop text tabsz offs (Suc i)
             (if int i + tabsz < py_len text then ret
              else if py_slice text (int i) (int i + tabsz) = py_rep SPC tabsz
                   then ret + (tabsz - 1)
              else ret + 1)
      else ret)"
  by pat_completeness auto
termination
  by (relation "measure (\<lambda>(text, tabsz, offs, i, ret). nat (offs - int i))") auto

declare vispos2bufpos_loop.simps [simp del]

definition vispos2bufpos :: "string \<Rightarrow> int \<Rightarrow> int \<Rightarrow> int" where
  "vispos2bufpos text tabsz offs =
     (if offs > py_len text then py_len text
      else vispos2bufpos_loop text tabsz offs 0 0)"

text \<open>
  The reference walk of the specification: the visual width of the first \<open>n\<close> characters,
  one column per character and \<open>tabsz\<close> per tab.
\<close>

definition visual_width :: "string \<Rightarrow> int \<Rightarrow> nat \<Rightarrow> int" where
  "visual_width text tabsz n = (\<Sum>c\<leftarrow>take n text. if c = TAB then tabsz else 1)"


section \<open>Editor state\<close>

text \<open>
  The fields of \<^verbatim>\<open>class State\<close> that the editing code reads or writes. The curses window
  \<^verbatim>\<open>win\<close> and the debugging slot \<^verbatim>\<open>globl\<close> are left out; \<^verbatim>\<open>navmode\<close> exists in the base
  variant only.
\<close>

record state =
  key :: int
  buffer :: "string list"
  openedfile :: string
  cmdbuffer :: string
  cmdmode :: bool
  navmode :: bool
  win_w :: int
  win_h :: int
  bufcur_x :: int
  bufcur_y :: int
  sticky_x :: int
  bufofs_x :: int
  bufofs_y :: int
  tabsz :: int

section \<open>Cursor movement\<close>

text \<open>\<^verbatim>\<open>move_cursor(s, wh)\<close> of the base variant.\<close>

definition move_cursor_base :: "state \<Rightarrow> string \<Rightarrow> error + state" where
  "move_cursor_base s wh =
     and_then (py_get (buffer s) (bufcur_y s)) (\<lambda>line.
       let oldvis = bufpos2vispos line (tabsz s) (bufcur_x s) in
       if wh = ''l'' then
         Inr (if bufcur_x s > 0 then s\<lparr>bufcur_x := bufcur_x s - 1\<rparr> else s)
       else if wh = ''r'' then
         Inr (if bufcur_x s < py_len line then s\<lparr>bufcur_x := bufcur_x s + 1\<rparr> else s)
       else if wh = ''d'' then
         (if bufcur_y s + 1 \<ge> py_len (buffer s) then Inr s
          else and_then (py_get (buffer s) (bufcur_y s + 1)) (\<lambda>newline.
                 Inr (s\<lparr>bufcur_y := bufcur_y s + 1,
                        bufcur_x := vispos2bufpos newline (tabsz s) oldvis\<rparr>)))
       else if wh = ''u'' then
         (if bufcur_y s \<le> 0 then Inr s
          else and_then (py_get (buffer s) (bufcur_y s - 1)) (\<lambda>newline.
                 Inr (s\<lparr>bufcur_y := bufcur_y s - 1,
                        bufcur_x := vispos2bufpos newline (tabsz s) oldvis\<rparr>)))
       else Inr s)"

text \<open>
  \<^verbatim>\<open>move_cursor(s, wh)\<close> of the extended variant: the same moves, each followed by the
  viewport adjustment of its direction.
\<close>

definition move_cursor_etc :: "state \<Rightarrow> string \<Rightarrow> error + state" where
  "move_cursor_etc s wh =
     and_then (py_get (buffer s) (bufcur_y s)) (\<lambda>line.
       let oldvis = bufpos2vispos line (tabsz s) (bufcur_x s) in
       if wh = ''l'' then
         (let s1 = (if bufcur_x s > 0 then s\<lparr>bufcur_x := bufcur_x s - 1\<rparr> else s);
              vis = bufpos2vispos line (tabsz s1) (bufcur_x s1)
          in Inr (if vis < bufofs_x s1 then s1\<lparr>bufofs_x := vis\<rparr> else s1))
       else if wh = ''r'' then
         (let s1 = (if bufcur_x s < py_len line then s\<lparr>bufcur_x := bufcur_x s + 1\<rparr> else s);
              vis = bufpos2vispos line (tabsz s1) (bufcur_x s1)
          in Inr (if vis \<ge> bufofs_x s1 + win_w s1 then s1\<lparr>bufofs_x := vis\<rparr> else s1))
       else if wh = ''d'' then
         and_then
           (if bufcur_y s + 1 \<ge> py_len (buffer s) then Inr s
            else and_then (py_get (buffer s) (bufcur_y s + 1)) (\<lambda>newline.
                   Inr (s\<lparr>bufcur_y := bufcur_y s + 1,
                          bufcur_x := vispos2bufpos newline (tabsz s) oldvis\<rparr>)))
           (\<lambda>s1. Inr (if bufcur_y s1 \<ge> bufofs_y s1 + win_h s1 - 1
                       then s1\<lparr>bufofs_y := bufofs_y s1 + 1\<rparr> else s1))
       else if wh = ''u'' then
         and_then
           (if bufcur_y s \<le> 0 then Inr s
            else and_then (py_get (buffer s) (bufcur_y s - 1)) (\<lambda>newline.
                   Inr (s\<lparr>bufcur_y := bufcur_y s - 1,
                          bufcur_x := vispos2bufpos newline (tabsz s) oldvis\<rparr>)))
           (\<lambda>s1. Inr (if bufcur_y s1 < bufofs_y s1
                       then s1\<lparr>bufofs_y := bufofs_y s1 - 1\<rparr> else s1))
       else Inr s)"

section \<open>Character insertion\<close>

text \<open>
  \<^verbatim>\<open>ins_chr(s)\<close>, the same in both variants up to the debugging slot: the character
  \<^verbatim>\<open>chr(s.key)\<close> goes in at the cursor, the cursor moves right, and the viewport follows
  once the cursor is more than 79 columns to the right of its left edge.
\<close>

definition ins_chr :: "state \<Rightarrow> error + state" where
  "ins_chr s =
     and_then (py_get (buffer s) (bufcur_y s)) (\<lambda>line.
     and_then (py_chr (key s)) (\<lambda>c.
     and_then (py_set (buffer s) (bufcur_y s)
                (if bufcur_x s = py_len line then line @ [c]
                 else py_upto line (bufcur_x s) @ [c] @ py_from line (bufcur_x s))) (\<lambda>buf.
       let s1 = s\<lparr>buffer := buf, bufcur_x := bufcur_x s + 1\<rparr>
       in Inr (if bufcur_x s1 - bufofs_x s1 > 79
               then s1\<lparr>bufofs_x := bufofs_x s1 + 1\<rparr> else s1))))"


section \<open>Number parsing\<close>

text \<open>
  \<^verbatim>\<open>int(x, base)\<close> on a string, for \<open>base\<close> 0 or 2 to 36, after CPython's
  \<^verbatim>\<open>PyLong_FromString\<close>: surrounding whitespace, one sign, the base prefix, one optional
  underscore after the prefix, digits separated by single underscores. \<open>None\<close> stands for
  ValueError. Among the code points below 256 the whitespace skipped is the ASCII set
  9 to 13 and 32, and the two non-ASCII spaces 133 and 160; no other character from 128 on
  is a digit. (The limit on the number of decimal digits that newer interpreters add is
  not modelled.)
\<close>

definition int_space :: "char \<Rightarrow> bool" where
  "int_space c = (let n = (of_char c :: nat)
                  in (9 \<le> n \<and> n \<le> 13) \<or> n = 32 \<or> n = 133 \<or> n = 160)"

definition digit_value :: "char \<Rightarrow> nat" where
  "digit_value c =
     (let n = (of_char c :: nat)
      in if 48 \<le> n \<and> n \<le> 57 then n - 48
         else if 97 \<le> n \<and> n \<le> 122 then n - 87
         else if 65 \<le> n \<and> n \<le> 90 then n - 55
         else 37)"

text \<open>
  The digit scan: \<open>pu\<close> says that the previous character was an underscore. Two
  underscores in a row or an underscore at the end of the digits are errors; the scan
  returns the value and what follows the digits.
\<close>

fun scan_digits :: "nat \<Rightarrow> string \<Rightarrow> bool \<Rightarrow> nat \<Rightarrow> (nat \<times> string) option" where
  "scan_digits b [] pu acc = (if pu then None else Some (acc, []))"
| "scan_digits b (c # cs) pu acc =
     (if c = CHR ''_'' then (if pu then None else scan_digits b cs True acc)
      else if digit_value c < b then scan_digits b cs False (acc * b + digit_value c)
      else if pu then None
      else Some (acc, c # cs))"

definition has_prefix :: "nat \<Rightarrow> string \<Rightarrow> bool" where
  "has_prefix b s =
     (case s of
        c0 # c1 # _ \<Rightarrow>
          c0 = CHR ''0'' \<and>
          ((b = 16 \<and> (c1 = CHR ''x'' \<or> c1 = CHR ''X'')) \<or>
           (b = 8 \<and> (c1 = CHR ''o'' \<or> c1 = CHR ''O'')) \<or>
           (b = 2 \<and> (c1 = CHR ''b'' \<or> c1 = CHR ''B'')))
      | _ \<Rightarrow> False)"

text \<open>
  For base 0 the base comes from the prefix; a leading zero without a prefix selects
  base 10 and allows the value zero only.
\<close>

definition pick_base :: "nat \<Rightarrow> string \<Rightarrow> nat \<times> bool" where
  "pick_base base s =
     (if base \<noteq> 0 then (base, False)
      else (case s of
              [] \<Rightarrow> (10, False)
            | c0 # r \<Rightarrow>
                if c0 \<noteq> CHR ''0'' then (10, False)
                else (case r of
                        [] \<Rightarrow> (10, True)
                      | c1 # _ \<Rightarrow>
                          if c1 = CHR ''x'' \<or> c1 = CHR ''X'' then (16, False)
                          else if c1 = CHR ''o'' \<or> c1 = CHR ''O'' then (8, False)
                          else if c1 = CHR ''b'' \<or> c1 = CHR ''B'' then (2, False)
                          else (10, True))))"

definition py_int :: "string \<Rightarrow> nat \<Rightarrow> int option" where
  "py_int x base =
     (let s0 = dropWhile int_space x;
          neg = (s0 \<noteq> [] \<and> hd s0 = CHR ''-'');
          s1 = (if s0 \<noteq> [] \<and> (hd s0 = CHR ''+'' \<or> hd s0 = CHR ''-'') then tl s0 else s0);
          (b, zero_only) = pick_base base s1;
          s2 = (if has_prefix b s1
                then (let r = drop 2 s1 in if r \<noteq> [] \<and> hd r = CHR ''_'' then tl r else r)
                else s1)
      in if s2 \<noteq> [] \<and> hd s2 = CHR ''_'' then None
         else (case scan_digits b s2 False 0 of
                 None \<Rightarrow> None
               | Some (v, rest) \<Rightarrow>
                   if zero_only \<and> v \<noteq> 0 then None
                   else if length rest = length s2 then None
                   else if dropWhile int_space rest \<noteq> [] then None
                   else Some (if neg then - int v else int v)))"

definition int_or_raise :: "string \<Rightarrow> nat \<Rightarrow> error + int" where
  "int_or_raise x base = (case py_int x base of None \<Rightarrow> Inl ValueError | Some v \<Rightarrow> Inr v)"

section \<open>Files\<close>

text \<open>
  The file commands reach the operating system through \<^verbatim>\<open>os.path.expanduser\<close>,
  \<^verbatim>\<open>os.path.isfile\<close> and \<^verbatim>\<open>open\<close>. They are parameters of the model: reading a path
  gives its text or raises, writing a path succeeds or raises.
\<close>

record io =
  expanduser :: "string \<Rightarrow> string"
  isfile :: "string \<Rightarrow> bool"
  read_text :: "string \<Rightarrow> error + string"
  write_text :: "string \<Rightarrow> string \<Rightarrow> error + unit"

text \<open>A system on which no file can be read or written.\<close>

definition no_files :: io where
  "no_files = \<lparr>expanduser = (\<lambda>p. p), isfile = (\<lambda>p. False),
     read_text = (\<lambda>p. Inl OSError), write_text = (\<lambda>p txt. Inl OSError)\<rparr>"

text \<open>\<^verbatim>\<open>text.split('\n')\<close> and \<^verbatim>\<open>'\n'.join(lines) + '\n'\<close>.\<close>

fun split_nl :: "string \<Rightarrow> string list" where
  "split_nl [] = [[]]"
| "split_nl (c # cs) =
     (if c = CHR 0x0A then [] # split_nl cs
      else (c # hd (split_nl cs)) # tl (split_nl cs))"

fun join_nl :: "string list \<Rightarrow> string" where
  "join_nl [] = []"
| "join_nl [l] = l"
| "join_nl (l # ls) = l @ [CHR 0x0A] @ join_nl ls"

definition file_text :: "string list \<Rightarrow> string" where
  "file_text lines = join_nl lines @ [CHR 0x0A]"

section \<open>Commands\<close>

text \<open>
  \<^verbatim>\<open>do_cmd(s)\<close> returns 1 for \<^verbatim>\<open>q\<close> and 0 otherwise; the model returns that number with
  the state. The branches common to both variants come first.
\<close>

definition cmd_open :: "io \<Rightarrow> state \<Rightarrow> string \<Rightarrow> error + state" where
  "cmd_open w s cmd =
     (let path = expanduser w (drop 2 cmd)
      in and_then (read_text w path) (\<lambda>txt.
           Inr (s\<lparr>openedfile := path, buffer := split_nl txt,
                  bufofs_x := 0, bufofs_y := 0, bufcur_x := 0, bufcur_y := 0\<rparr>)))"

definition cmd_touch :: "io \<Rightarrow> state \<Rightarrow> string \<Rightarrow> error + state" where
  "cmd_touch w s cmd =
     (let path = expanduser w (drop 2 cmd)
      in if \<not> isfile w path
         then and_then (write_text w path []) (\<lambda>_. Inr s)
         else Inr s)"

definition cmd_save :: "io \<Rightarrow> state \<Rightarrow> string \<Rightarrow> error + state" where
  "cmd_save w s cmd =
     (let path = expanduser w (drop 2 cmd)
      in and_then (write_text w path (file_text (buffer s))) (\<lambda>_.
           Inr (s\<lparr>openedfile := path\<rparr>)))"

definition cmd_quicksave :: "io \<Rightarrow> state \<Rightarrow> error + state" where
  "cmd_quicksave w s =
     and_then (write_text w (openedfile s) (file_text (buffer s))) (\<lambda>_. Inr s)"

definition cmd_tabsz :: "state \<Rightarrow> string \<Rightarrow> error + state" where
  "cmd_tabsz s cmd =
     and_then (int_or_raise (drop 6 cmd) 0) (\<lambda>size.
       Inr (if size > 0 \<and> size < 256 then s\<lparr>tabsz := size\<rparr> else s))"

definition cmd_cls :: "state \<Rightarrow> state" where
  "cmd_cls s = s\<lparr>openedfile := [], buffer := [[]],
                 bufofs_x := 0, bufofs_y := 0, bufcur_x := 0, bufcur_y := 0\<rparr>"

definition cmd_codepoint :: "state \<Rightarrow> string \<Rightarrow> error + state" where
  "cmd_codepoint s cmd =
     and_then (int_or_raise (drop 2 cmd) 16) (\<lambda>cp. ins_chr (s\<lparr>key := cp\<rparr>))"

definition startswith :: "string \<Rightarrow> string \<Rightarrow> bool" where
  "startswith s p = (take (length p) s = p)"

text \<open>\<^verbatim>\<open>do_cmd\<close> of the base variant.\<close>

definition do_cmd_base :: "io \<Rightarrow> state \<Rightarrow> error + (int \<times> state)" where
  "do_cmd_base w s =
     (let cmd = cmdbuffer s in
      if startswith cmd ''u-'' then and_then (cmd_codepoint s cmd) (\<lambda>s1. Inr (0, s1))
      else if cmd = ''n'' then Inr (0, s\<lparr>navmode := \<not> navmode s, sticky_x := bufcur_x s\<rparr>)
      else if startswith cmd ''o '' then and_then (cmd_open w s cmd) (\<lambda>s1. Inr (0, s1))
      else if startswith cmd ''t '' then and_then (cmd_touch w s cmd) (\<lambda>s1. Inr (0, s1))
      else if startswith cmd ''s '' then and_then (cmd_save w s cmd) (\<lambda>s1. Inr (0, s1))
      else if cmd = ''ss'' \<and> openedfile s \<noteq> [] then
        and_then (cmd_quicksave w s) (\<lambda>s1. Inr (0, s1))
      else if startswith cmd ''tabsz '' then and_then (cmd_tabsz s cmd) (\<lambda>s1. Inr (0, s1))
      else if cmd = ''cls'' then Inr (0, cmd_cls s)
      else if cmd = ''q'' then Inr (1, s)
      else Inr (0, s))"

text \<open>The navigation commands of the extended variant.\<close>

definition cmd_end :: "state \<Rightarrow> error + state" where
  "cmd_end s =
     and_then (py_get (buffer s) (bufcur_y s)) (\<lambda>line.
       let s1 = s\<lparr>bufcur_x := py_len line\<rparr>
       in Inr (s1\<lparr>bufofs_x := bufpos2vispos line (tabsz s1) (bufcur_x s1)\<rparr>))"

definition cmd_halign :: "state \<Rightarrow> error + state" where
  "cmd_halign s =
     and_then (py_get (buffer s) (bufcur_y s)) (\<lambda>line.
       Inr (s\<lparr>bufofs_x := bufpos2vispos line (tabsz s) (bufcur_x s)\<rparr>))"

definition cmd_pageup :: "state \<Rightarrow> state" where
  "cmd_pageup s =
     (if bufcur_y s - (win_h s - 1) \<ge> 0
      then s\<lparr>bufofs_y := bufofs_y s - (win_h s - 1), bufcur_y := bufcur_y s - (win_h s - 1)\<rparr>
      else s\<lparr>bufofs_y := 0, bufcur_y := 0\<rparr>)"

definition cmd_pagedown :: "state \<Rightarrow> state" where
  "cmd_pagedown s =
     (let bufferlen = py_len (buffer s) in
      if bufcur_y s + win_h s - 1 \<le> bufferlen
      then s\<lparr>bufofs_y := bufofs_y s + (win_h s - 1), bufcur_y := bufcur_y s + (win_h s - 1)\<rparr>
      else s\<lparr>bufofs_y := bufferlen - 1, bufcur_y := bufferlen - 1\<rparr>)"

definition cmd_goto :: "state \<Rightarrow> string \<Rightarrow> error + state" where
  "cmd_goto s cmd =
     and_then (int_or_raise (drop 2 cmd) 0) (\<lambda>num.
       Inr (if num < py_len (buffer s) then s\<lparr>bufcur_y := num, bufofs_y := num\<rparr> else s))"

text \<open>\<^verbatim>\<open>do_cmd\<close> of the extended variant.\<close>

definition do_cmd_etc :: "io \<Rightarrow> state \<Rightarrow> error + (int \<times> state)" where
  "do_cmd_etc w s =
     (let cmd = cmdbuffer s in
      if startswith cmd ''u-'' then and_then (cmd_codepoint s cmd) (\<lambda>s1. Inr (0, s1))
      else if cmd = ''h'' then Inr (0, s\<lparr>bufcur_x := 0, bufofs_x := 0\<rparr>)
      else if cmd = ''e'' then and_then (cmd_end s) (\<lambda>s1. Inr (0, s1))
      else if cmd = ''va'' then Inr (0, s\<lparr>bufofs_y := bufcur_y s\<rparr>)
      else if cmd = ''ha'' then and_then (cmd_halign s) (\<lambda>s1. Inr (0, s1))
      else if cmd = ''pu'' then Inr (0, cmd_pageup s)
      else if cmd = ''pd'' then Inr (0, cmd_pagedown s)
      else if startswith cmd ''g '' then and_then (cmd_goto s cmd) (\<lambda>s1. Inr (0, s1))
      else if startswith cmd ''o '' then and_then (cmd_open w s cmd) (\<lambda>s1. Inr (0, s1))
      else if startswith cmd ''t '' then and_then (cmd_touch w s cmd) (\<lambda>s1. Inr (0, s1))
      else if startswith cmd ''s '' then and_then (cmd_save w s cmd) (\<lambda>s1. Inr (0, s1))
      else if cmd = ''ss'' \<and> openedfile s \<noteq> [] then
        and_then (cmd_quicksave w s) (\<lambda>s1. Inr (0, s1))
      else if startswith cmd ''tabsz '' then and_then (cmd_tabsz s cmd) (\<lambda>s1. Inr (0, s1))
      else if cmd = ''cls'' then Inr (0, cmd_cls s)
      else if cmd = ''q'' then Inr (1, s)
      else Inr (0, s))"


section \<open>Keys\<close>

text \<open>The key codes of curses that \<^verbatim>\<open>mainloop\<close> compares with.\<close>

abbreviation KEY_ERR :: int where "KEY_ERR \<equiv> - 1"
abbreviation KEY_DOWN :: int where "KEY_DOWN \<equiv> 258"
abbreviation KEY_UP :: int where "KEY_UP \<equiv> 259"
abbreviation KEY_LEFT :: int where "KEY_LEFT \<equiv> 260"
abbreviation KEY_RIGHT :: int where "KEY_RIGHT \<equiv> 261"

text \<open>
  The Return key outside command mode, base variant: an empty line goes in after the
  current one.
\<close>

definition key_enter_base :: "state \<Rightarrow> state" where
  "key_enter_base s =
     (let buf = (if bufcur_y s < py_len (buffer s) - 1
                 then py_upto (buffer s) (bufcur_y s + 1) @ [[]] @ py_from (buffer s) (bufcur_y s + 1)
                 else buffer s @ [[]])
      in s\<lparr>buffer := buf, bufcur_y := bufcur_y s + 1, bufcur_x := 0\<rparr>)"

text \<open>
  The Return key outside command mode, extended variant: on a line that is not the last
  and with the cursor before the end of the line, the line is split at the cursor.
\<close>

definition key_enter_etc :: "state \<Rightarrow> error + state" where
  "key_enter_etc s =
     and_then
       (if bufcur_y s < py_len (buffer s) - 1 then
          and_then (py_get (buffer s) (bufcur_y s)) (\<lambda>curline.
            if bufcur_x s < py_len curline then
              and_then (py_set (py_upto (buffer s) (bufcur_y s + 1)) (- 1)
                         (py_upto curline (bufcur_x s))) (\<lambda>lhs.
              and_then (py_set (py_from (buffer s) (bufcur_y s)) 0
                         (py_from curline (bufcur_x s))) (\<lambda>rhs.
                Inr (lhs @ rhs)))
            else Inr (py_insert (buffer s) (bufcur_y s + 1) []))
        else Inr (buffer s @ [[]]))
       (\<lambda>buf. Inr (s\<lparr>buffer := buf, bufcur_y := bufcur_y s + 1, bufcur_x := 0\<rparr>))"

text \<open>The Del key (code 330), extended variant only.\<close>

definition key_del_etc :: "state \<Rightarrow> error + state" where
  "key_del_etc s =
     and_then (py_get (buffer s) (bufcur_y s)) (\<lambda>line.
       let linelen = py_len line; buflen = py_len (buffer s) in
       if buffer s = [[]] \<or> (bufcur_x s \<ge> linelen \<and> bufcur_y s \<ge> buflen - 1) then Inr s
       else if bufcur_x s \<ge> linelen \<and> bufcur_y s + 1 < buflen then
         and_then (py_get (buffer s) (bufcur_y s + 1)) (\<lambda>nextline.
         and_then (py_set (buffer s) (bufcur_y s) (line @ nextline)) (\<lambda>buf1.
         and_then (py_del buf1 (bufcur_y s + 1)) (\<lambda>buf2.
           Inr (s\<lparr>buffer := buf2\<rparr>))))
       else
         and_then (py_set (buffer s) (bufcur_y s)
                    (py_upto line (bufcur_x s) @ py_from line (bufcur_x s + 1))) (\<lambda>buf.
           Inr (s\<lparr>buffer := buf\<rparr>)))"

text \<open>
  Backspace (code 127) outside command mode. The two variants differ in the branch that
  joins the current line onto the previous one: \<open>prevlen\<close> computes the new column and
  \<open>lhs_end\<close> is the bound of the slice \<^verbatim>\<open>lhs\<close>.
\<close>

definition key_backspace_join ::
  "(string list \<Rightarrow> int \<Rightarrow> error + int) \<Rightarrow> (int \<Rightarrow> int) \<Rightarrow> state \<Rightarrow> error + state" where
  "key_backspace_join prevlen lhs_end s =
     and_then (prevlen (buffer s) (bufcur_y s)) (\<lambda>newx.
     and_then (py_get (buffer s) (bufcur_y s - 1)) (\<lambda>prev.
     and_then (py_get (buffer s) (bufcur_y s)) (\<lambda>cur.
       let line = prev @ cur; lhs = py_upto (buffer s) (lhs_end (bufcur_y s)) in
       and_then (if lhs = [] then Inr [line] else py_set lhs (- 1) line) (\<lambda>lhs1.
         let rhs = py_from (buffer s) (bufcur_y s + 1)
         in Inr (s\<lparr>buffer := lhs1 @ rhs, bufcur_y := bufcur_y s - 1, bufcur_x := newx\<rparr>)))))"

definition key_backspace_gen ::
  "(string list \<Rightarrow> int \<Rightarrow> error + int) \<Rightarrow> (int \<Rightarrow> int) \<Rightarrow> state \<Rightarrow> error + state" where
  "key_backspace_gen prevlen lhs_end s =
     (if buffer s = [[]] \<or> (bufcur_x s = 0 \<and> bufcur_y s = 0) then Inr s
      else and_then (py_get (buffer s) (bufcur_y s)) (\<lambda>line.
        if line = [] then
          (let buf = (if bufcur_y s < py_len (buffer s) - 1
                      then py_upto (buffer s) (bufcur_y s) @ py_from (buffer s) (bufcur_y s + 1)
                      else py_upto (buffer s) (- 1))
           in and_then (py_get buf (bufcur_y s - 1)) (\<lambda>newline.
                Inr (s\<lparr>buffer := buf, bufcur_y := bufcur_y s - 1, bufcur_x := py_len newline\<rparr>)))
        else if bufcur_x s = 0 then key_backspace_join prevlen lhs_end s
        else if bufcur_x s < py_len line then
          and_then (py_set (buffer s) (bufcur_y s)
                     (py_upto line (bufcur_x s - 1) @ py_from line (bufcur_x s))) (\<lambda>buf.
            Inr (s\<lparr>buffer := buf, bufcur_x := bufcur_x s - 1\<rparr>))
        else
          and_then (py_set (buffer s) (bufcur_y s) (py_upto line (- 1))) (\<lambda>buf.
            Inr (s\<lparr>buffer := buf, bufcur_x := bufcur_x s - 1\<rparr>))))"

text \<open>
  Base variant: \<^verbatim>\<open>newx = len(s.buffer[:s.bufcur_y - 1])\<close> and
  \<^verbatim>\<open>lhs = s.buffer[:s.bufcur_y - 1]\<close>.
\<close>

definition key_backspace_base :: "state \<Rightarrow> error + state" where
  "key_backspace_base =
     key_backspace_gen (\<lambda>buf y. Inr (py_len (py_upto buf (y - 1)))) (\<lambda>y. y - 1)"

text \<open>
  Extended variant: \<^verbatim>\<open>newx = len(s.buffer[s.bufcur_y - 1])\<close> and
  \<^verbatim>\<open>lhs = s.buffer[:s.bufcur_y]\<close>.
\<close>

definition key_backspace_etc :: "state \<Rightarrow> error + state" where
  "key_backspace_etc =
     key_backspace_gen (\<lambda>buf y. and_then (py_get buf (y - 1)) (\<lambda>l. Inr (py_len l))) (\<lambda>y. y)"

section \<open>The main loop\<close>

text \<open>
  What one round of \<^verbatim>\<open>mainloop\<close> takes from the terminal: the window size that
  \<^verbatim>\<open>getmaxyx\<close> returns, rows first, and the key that \<^verbatim>\<open>getch\<close> returns.
\<close>

record tick =
  maxyx :: "int \<times> int"
  getch :: int

text \<open>
  \<^verbatim>\<open>render(s)\<close>, as far as the state and the exceptions of Python go, the same in both
  variants: \<^verbatim>\<open>store_winsz\<close> writes the window size into the state; the status bar and the
  lines are painted (the painting of a line of the extended variant is \<open>render_row\<close>
  below); outside command mode the cursor is placed with a read of
  \<^verbatim>\<open>s.buffer[s.bufcur_y - bufstart_y]\<close>, where \<^verbatim>\<open>bufstart_y\<close> is \<^verbatim>\<open>s.bufofs_y\<close>, and that read
  raises IndexError when the index is out of range. The calls into curses are outside
  the model and taken not to raise.
\<close>

definition render :: "tick \<Rightarrow> state \<Rightarrow> error + state" where
  "render t s0 =
     (let s = s0\<lparr>win_w := snd (maxyx t), win_h := fst (maxyx t)\<rparr> in
      if cmdmode s then Inr s
      else and_then (py_get (buffer s) (bufcur_y s - bufofs_y s)) (\<lambda>line. Inr s))"

text \<open>
  \<^verbatim>\<open>mainloop(s)\<close>: \<^verbatim>\<open>render(s)\<close>, then the key of the round is stored and dispatched. The
  result is the return value (1 to leave the program) with the state.
\<close>

definition mainloop_base :: "io \<Rightarrow> tick \<Rightarrow> state \<Rightarrow> error + (int \<times> state)" where
  "mainloop_base w t s0 =
     and_then (render t s0) (\<lambda>s1.
      let k = getch t; s = s1\<lparr>key := k\<rparr> in
      if k = KEY_ERR then Inr (0, s)
      else if k = 9 then
        (if cmdmode s then and_then (ins_chr s) (\<lambda>s1. Inr (0, s1\<lparr>cmdmode := False\<rparr>))
         else Inr (0, s\<lparr>cmdmode := True\<rparr>))
      else if k = 10 then
        (if cmdmode s then
           and_then (do_cmd_base w s) (\<lambda>(r, s1).
             Inr (if r \<noteq> 0 then 1 else 0, s1\<lparr>cmdmode := False, cmdbuffer := []\<rparr>))
         else if \<not> navmode s then Inr (0, key_enter_base s)
         else Inr (0, s))
      else if k = 127 then
        (if cmdmode s then Inr (0, s\<lparr>cmdmode := False, cmdbuffer := []\<rparr>)
         else if \<not> navmode s then and_then (key_backspace_base s) (\<lambda>s1. Inr (0, s1))
         else Inr (0, s))
      else if cmdmode s then
        and_then (py_chr k) (\<lambda>c. Inr (0, s\<lparr>cmdbuffer := cmdbuffer s @ [c]\<rparr>))
      else if k = KEY_UP then and_then (move_cursor_base s ''u'') (\<lambda>s1. Inr (0, s1))
      else if k = KEY_LEFT then and_then (move_cursor_base s ''l'') (\<lambda>s1. Inr (0, s1))
      else if k = KEY_DOWN then and_then (move_cursor_base s ''d'') (\<lambda>s1. Inr (0, s1))
      else if k = KEY_RIGHT then and_then (move_cursor_base s ''r'') (\<lambda>s1. Inr (0, s1))
      else and_then (ins_chr s) (\<lambda>s1. Inr (0, s1)))"

definition mainloop_etc :: "io \<Rightarrow> tick \<Rightarrow> state \<Rightarrow> error + (int \<times> state)" where
  "mainloop_etc w t s0 =
     and_then (render t s0) (\<lambda>s1.
      let k = getch t; s = s1\<lparr>key := k\<rparr> in
      if k = KEY_ERR then Inr (0, s)
      else if k = 9 then
        (if cmdmode s then and_then (ins_chr s) (\<lambda>s1. Inr (0, s1\<lparr>cmdmode := False\<rparr>))
         else Inr (0, s\<lparr>cmdmode := True\<rparr>))
      else if k = 10 then
        (if cmdmode s then
           and_then (do_cmd_etc w s) (\<lambda>(r, s1).
             Inr (if r \<noteq> 0 then 1 else 0, s1\<lparr>cmdmode := False, cmdbuffer := []\<rparr>))
         else and_then (key_enter_etc s) (\<lambda>s1. Inr (0, s1)))
      else if k = 27 then Inr (0, s\<lparr>cmdmode := False, cmdbuffer := []\<rparr>)
      else if k = 330 then and_then (key_del_etc s) (\<lambda>s1. Inr (0, s1))
      else if k = 127 then
        (if cmdmode s then Inr (0, s\<lparr>cmdbuffer := py_upto (cmdbuffer s) (- 1)\<rparr>)
         else and_then (key_backspace_etc s) (\<lambda>s1. Inr (0, s1)))
      else if cmdmode s then
        and_then (py_chr k) (\<lambda>c. Inr (0, s\<lparr>cmdbuffer := cmdbuffer s @ [c]\<rparr>))
      else if k = KEY_UP then and_then (move_cursor_etc s ''u'') (\<lambda>s1. Inr (0, s1))
      else if k = KEY_LEFT then and_then (move_cursor_etc s ''l'') (\<lambda>s1. Inr (0, s1))
      else if k = KEY_DOWN then and_then (move_cursor_etc s ''d'') (\<lambda>s1. Inr (0, s1))
      else if k = KEY_RIGHT then and_then (move_cursor_etc s ''r'') (\<lambda>s1. Inr (0, s1))
      else if k < 256 then and_then (ins_chr s) (\<lambda>s1. Inr (0, s1))
      else Inr (0, s))"

text \<open>
  A run of rounds: the loop of \<^verbatim>\<open>main\<close>, which stops when \<^verbatim>\<open>mainloop\<close> returns 1 or
  raises. \<open>ticks\<close> is a run of keys in a window that keeps its size.
\<close>

fun run_keys :: "(tick \<Rightarrow> state \<Rightarrow> error + (int \<times> state)) \<Rightarrow> tick list \<Rightarrow> state \<Rightarrow> error + state" where
  "run_keys step [] s = Inr s"
| "run_keys step (t # ts) s =
     (case step t s of
        Inl e \<Rightarrow> Inl e
      | Inr (r, s1) \<Rightarrow> if r \<noteq> 0 then Inr s1 else run_keys step ts s1)"

definition ticks :: "int \<times> int \<Rightarrow> int list \<Rightarrow> tick list" where
  "ticks sz ks = map (\<lambda>k. \<lparr>maxyx = sz, getch = k\<rparr>) ks"

text \<open>
  The two deleting edits of the extended variant as operations on the state, Backspace
  outside command mode and Del, and a sequence of them, which stops at the first
  exception.
\<close>

datatype edit = Backspace | Del

fun apply_edit :: "edit \<Rightarrow> state \<Rightarrow> error + state" where
  "apply_edit Backspace s = key_backspace_etc s"
| "apply_edit Del s = key_del_etc s"

fun apply_edits :: "edit list \<Rightarrow> state \<Rightarrow> error + state" where
  "apply_edits [] s = Inr s"
| "apply_edits (e # es) s = and_then (apply_edit e s) (apply_edits es)"

text \<open>The state of a fresh editor, \<^verbatim>\<open>State.__init__\<close>, per variant.\<close>

definition init_base :: state where
  "init_base = \<lparr>key = 0, buffer = [[]], openedfile = [], cmdbuffer = [], cmdmode = False,
     navmode = False, win_w = 0, win_h = 0, bufcur_x = 0, bufcur_y = 0, sticky_x = 0,
     bufofs_x = 0, bufofs_y = 0, tabsz = 1\<rparr>"

definition init_etc :: state where
  "init_etc = \<lparr>key = 0, buffer = [[]], openedfile = [], cmdbuffer = [], cmdmode = False,
     navmode = False, win_w = 0, win_h = 0, bufcur_x = 0, bufcur_y = 0, sticky_x = 0,
     bufofs_x = 0, bufofs_y = 0, tabsz = 3\<rparr>"

text \<open>A cursor that is in bounds: the row names a line, the column a position on it.\<close>

definition in_bounds :: "state \<Rightarrow> bool" where
  "in_bounds s \<longleftrightarrow>
     0 \<le> bufcur_y s \<and> bufcur_y s < py_len (buffer s) \<and>
     0 \<le> bufcur_x s \<and> bufcur_x s \<le> py_len (buffer s ! nat (bufcur_y s))"


section \<open>Regular expressions\<close>

text \<open>
  The tokenizer of the extended variant runs ten patterns of Python's \<^verbatim>\<open>re\<close> module over
  the line, one after the other. A pattern is modelled by its syntax tree: \<open>Lit\<close> a
  character, \<open>Dot\<close> the dot, \<open>Cls\<close> and \<open>NCls\<close> a character class and a negated one,
  \<open>Spc\<close> the class \<^verbatim>\<open>\s\<close>, \<open>Bnd\<close> the word boundary \<^verbatim>\<open>\b\<close>, \<open>Cat\<close> and \<open>Alt\<close>
  sequence and alternation, \<open>Star\<close> and \<open>Opt\<close> the greedy \<^verbatim>\<open>*\<close> and \<^verbatim>\<open>?\<close>, \<open>Grp n\<close> the
  \<open>n\<close>-th capturing group, \<open>Ahead\<close> and \<open>NotAhead\<close> the lookaheads \<^verbatim>\<open>(?=...)\<close> and
  \<^verbatim>\<open>(?!...)\<close>.
\<close>

datatype citem = Ch char | Rg char char

datatype rx =
    Eps
  | Lit char
  | Dot
  | Cls "citem list"
  | NCls "citem list"
  | Spc
  | Bnd
  | Cat rx rx
  | Alt rx rx
  | Star rx
  | Opt rx
  | Grp nat rx
  | Ahead rx
  | NotAhead rx

text \<open>A sequence and an alternation of several patterns, a literal word, a choice of words.\<close>

fun cats :: "rx list \<Rightarrow> rx" where
  "cats [] = Eps"
| "cats [r] = r"
| "cats (r # rs) = Cat r (cats rs)"

fun alts :: "rx list \<Rightarrow> rx" where
  "alts [] = NotAhead Eps"
| "alts [r] = r"
| "alts (r # rs) = Alt r (alts rs)"

definition lits :: "string \<Rightarrow> rx" where
  "lits s = cats (map Lit s)"

definition words :: "string list \<Rightarrow> rx" where
  "words ws = alts (map lits ws)"

text \<open>
  Character tests. For a \<^verbatim>\<open>str\<close> pattern \<^verbatim>\<open>\w\<close> is an alphanumeric character or the
  underscore and \<^verbatim>\<open>\s\<close> is a whitespace character, both in the Unicode sense; the tables
  are those of the code points below 256.
\<close>

definition code :: "char \<Rightarrow> nat" where
  "code c = of_char c"

definition in_item :: "char \<Rightarrow> citem \<Rightarrow> bool" where
  "in_item c i = (case i of Ch d \<Rightarrow> c = d | Rg lo hi \<Rightarrow> code lo \<le> code c \<and> code c \<le> code hi)"

definition in_cls :: "citem list \<Rightarrow> char \<Rightarrow> bool" where
  "in_cls items c = list_ex (in_item c) items"

definition is_word :: "char \<Rightarrow> bool" where
  "is_word c =
     (let n = code c in
      (48 \<le> n \<and> n \<le> 57) \<or> (65 \<le> n \<and> n \<le> 90) \<or> n = 95 \<or> (97 \<le> n \<and> n \<le> 122) \<or>
      n = 170 \<or> n = 178 \<or> n = 179 \<or> n = 181 \<or> n = 185 \<or> n = 186 \<or>
      (188 \<le> n \<and> n \<le> 190) \<or> (192 \<le> n \<and> n \<le> 214) \<or> (216 \<le> n \<and> n \<le> 246) \<or>
      248 \<le> n)"

definition is_space :: "char \<Rightarrow> bool" where
  "is_space c =
     (let n = code c in (9 \<le> n \<and> n \<le> 13) \<or> (28 \<le> n \<and> n \<le> 32) \<or> n = 133 \<or> n = 160)"

text \<open>
  The matcher is a backtracking one. Its state is the character before the position
  (for \<^verbatim>\<open>\b\<close>), the input still to read, and the groups captured so far, the latest
  first. \<open>rx_run r st\<close> lists the states in which a match of \<open>r\<close> from \<open>st\<close> can end, in
  the order in which backtracking tries them: the first alternative before the second,
  one more round of a star before stopping, the optional part before its absence.
\<close>

type_synonym captures = "(nat \<times> string) list"

record mstate =
  prev :: "char option"
  rest :: string
  caps :: captures

definition at_boundary :: "char option \<Rightarrow> string \<Rightarrow> bool" where
  "at_boundary p s =
     ((case p of None \<Rightarrow> False | Some c \<Rightarrow> is_word c)
      \<noteq> (case s of [] \<Rightarrow> False | c # _ \<Rightarrow> is_word c))"

definition eat :: "(char \<Rightarrow> bool) \<Rightarrow> mstate \<Rightarrow> mstate list" where
  "eat ok st =
     (case rest st of
        [] \<Rightarrow> []
      | c # cs \<Rightarrow> if ok c then [st\<lparr>prev := Some c, rest := cs\<rparr>] else [])"

definition left :: "mstate \<Rightarrow> nat" where
  "left st = length (rest st)"

definition capture :: "nat \<Rightarrow> mstate \<Rightarrow> mstate \<Rightarrow> mstate" where
  "capture n st st' = st'\<lparr>caps := (n, take (left st - left st') (rest st)) # caps st'\<rparr>"

text \<open>
  Every starred expression of the ten patterns consumes at least one character in each
  round, so the test \<open>left st' < left st\<close> is always true there; it only makes the
  recursion terminate. The lookaheads of the patterns contain no group, and the state
  after a lookahead is the state before it.
\<close>

function rx_run :: "rx \<Rightarrow> mstate \<Rightarrow> mstate list" where
  "rx_run Eps st = [st]"
| "rx_run (Lit c) st = eat (\<lambda>x. x = c) st"
| "rx_run Dot st = eat (\<lambda>x. x \<noteq> CHR 0x0A) st"
| "rx_run (Cls items) st = eat (in_cls items) st"
| "rx_run (NCls items) st = eat (\<lambda>x. \<not> in_cls items x) st"
| "rx_run Spc st = eat is_space st"
| "rx_run Bnd st = (if at_boundary (prev st) (rest st) then [st] else [])"
| "rx_run (Cat a b) st = concat (map (rx_run b) (rx_run a st))"
| "rx_run (Alt a b) st = rx_run a st @ rx_run b st"
| "rx_run (Star a) st =
     concat (map (\<lambda>st'. if left st' < left st then rx_run (Star a) st' else []) (rx_run a st))
     @ [st]"
| "rx_run (Opt a) st = rx_run a st @ [st]"
| "rx_run (Grp n a) st = map (capture n st) (rx_run a st)"
| "rx_run (Ahead a) st = (if rx_run a st = [] then [] else [st])"
| "rx_run (NotAhead a) st = (if rx_run a st = [] then [st] else [])"
  by pat_completeness auto
termination
  by (relation "measures [\<lambda>(r, st). size r, \<lambda>(r, st). left st]") auto


declare rx_run.simps [simp del]

section \<open>Substitution\<close>

text \<open>
  \<^verbatim>\<open>pattern.sub(repl, line)\<close>: the line is scanned from the left; at each position the
  first match in backtracking order is replaced by the expanded template and the scan goes
  on after the match; where nothing matches, one character is copied. A template is a
  list of literal texts and group references \<^verbatim>\<open>\n\<close>; a group that took no part in the
  match expands to the empty string. None of the ten patterns matches the empty string
  (see \<open>rx_run_nonnull\<close> and the lemmas on each pattern), so the branch for an empty
  match, which puts the template in and copies one character, is never taken.
\<close>

datatype titem = Txt string | Ref nat

definition group :: "captures \<Rightarrow> nat \<Rightarrow> string" where
  "group g n = (case map_of g n of None \<Rightarrow> [] | Some m \<Rightarrow> m)"

fun expand :: "titem list \<Rightarrow> captures \<Rightarrow> string" where
  "expand [] g = []"
| "expand (Txt s # ts) g = s @ expand ts g"
| "expand (Ref n # ts) g = group g n @ expand ts g"

definition rx_match :: "rx \<Rightarrow> char option \<Rightarrow> string \<Rightarrow> mstate option" where
  "rx_match r p s =
     (case rx_run r \<lparr>prev = p, rest = s, caps = []\<rparr> of [] \<Rightarrow> None | st # _ \<Rightarrow> Some st)"

function re_sub :: "rx \<Rightarrow> titem list \<Rightarrow> char option \<Rightarrow> string \<Rightarrow> string" where
  "re_sub r tpl p s =
     (case rx_match r p s of
        None \<Rightarrow> (case s of [] \<Rightarrow> [] | c # cs \<Rightarrow> c # re_sub r tpl (Some c) cs)
      | Some st \<Rightarrow>
          if left st < length s then expand tpl (caps st) @ re_sub r tpl (prev st) (rest st)
          else expand tpl (caps st)
               @ (case s of [] \<Rightarrow> [] | c # cs \<Rightarrow> c # re_sub r tpl (Some c) cs))"
  by pat_completeness auto
termination
  by (relation "measure (\<lambda>(r, tpl, p, s). length s)") (auto simp: left_def)

declare re_sub.simps [simp del]

definition sub :: "rx \<Rightarrow> titem list \<Rightarrow> string \<Rightarrow> string" where
  "sub r tpl line = re_sub r tpl None line"

section \<open>The tokenizer\<close>

text \<open>
  The ten patterns of \<^verbatim>\<open>src/etc/djacarta.py\<close>, group numbers counted by opening
  parentheses as \<^verbatim>\<open>re\<close> does. The marker byte is \<^verbatim>\<open>'\032'\<close>, code point 26.
\<close>

abbreviation MARK :: char where "MARK \<equiv> CHR 0x1A"

definition expr_commentopen :: rx where
  "expr_commentopen = Grp 1 (lits ''/*'')"

definition expr_commentclos :: rx where
  "expr_commentclos = Grp 1 (lits ''*/'')"

definition expr_keyword :: rx where
  "expr_keyword =
     cats [Bnd,
           Grp 1 (words [''break'', ''case'', ''continue'', ''default'', ''do'', ''else'',
                         ''enum'', ''for'', ''goto'', ''if'', ''return'', ''sizeof'', ''struct'',
                         ''switch'', ''typedef'', ''while'', ''union'']),
           Bnd]"

definition expr_function :: rx where
  "expr_function =
     cats [Bnd,
           Grp 1 (cats [Grp 2 (cats [Cls [Rg (CHR ''A'') (CHR ''Z''), Rg (CHR ''a'') (CHR ''z''), Ch (CHR ''_'')],
                                     Star (Cls [Rg (CHR ''A'') (CHR ''Z''), Rg (CHR ''a'') (CHR ''z''),
                                                Rg (CHR ''0'') (CHR ''9''), Ch (CHR ''_'')])]),
                        Ahead (cats [Star Spc, Lit (CHR ''('')])])]"

definition expr_type :: rx where
  "expr_type =
     cats [Bnd,
           Grp 1 (words [''char'', ''const'', ''double'', ''extern'', ''float'', ''inline'', ''int'',
                         ''long'', ''register'', ''restrict'', ''short'', ''signed'', ''static'',
                         ''unsigned'', ''void'', ''volatile'']),
           Bnd]"

definition hexdigit :: "citem list" where
  "hexdigit = [Rg (CHR ''0'') (CHR ''9''), Rg (CHR ''a'') (CHR ''f''), Rg (CHR ''A'') (CHR ''F'')]"

definition bindigit :: "citem list" where
  "bindigit = [Ch (CHR ''0''), Ch (CHR ''1'')]"

definition decdigit :: "citem list" where
  "decdigit = [Rg (CHR ''0'') (CHR ''9'')]"

definition more_digits :: "nat \<Rightarrow> citem list \<Rightarrow> rx" where
  "more_digits n d = Opt (Grp n (cats [Star (Cls (d @ [Ch (CHR 0x27)])), Cls d]))"

definition expr_numeric :: rx where
  "expr_numeric =
     cats [Bnd,
           Grp 1 (cats [
             Grp 2 (alts [
               Grp 3 (cats [Lit (CHR ''0''), Grp 4 (alts [Lit (CHR ''x''), Lit (CHR ''X'')]),
                            Cls hexdigit, more_digits 5 hexdigit]),
               Grp 6 (cats [Lit (CHR ''0''), Grp 7 (alts [Lit (CHR ''b''), Lit (CHR ''B'')]),
                            Cls bindigit, more_digits 8 bindigit]),
               cats [
                 Grp 9 (alts [
                   Grp 10 (cats [Cls decdigit, more_digits 11 decdigit, Opt (Lit (CHR ''.'')),
                                 Star (Cls decdigit), more_digits 12 decdigit]),
                   Grp 13 (cats [Lit (CHR ''.''), Cls decdigit, more_digits 14 decdigit])]),
                 Opt (Grp 15 (cats [Grp 16 (alts [Lit (CHR ''e''), Lit (CHR ''E'')]),
                                    Opt (Grp 17 (alts [Lit (CHR ''+''), Lit (CHR ''-'')])),
                                    Cls decdigit, more_digits 18 decdigit]))]]),
             Opt (Grp 19 (words [''L'', ''l'', ''UL'', ''ul'', ''u'', ''U'', ''F'', ''f'', ''ll'',
                                 ''LL'', ''ull'', ''ULL'']))]),
           Bnd]"

definition expr_symbol :: rx where
  "expr_symbol =
     Grp 1 (alts [
       cats [Lit (CHR ''%''), Opt (Lit (CHR ''=''))],
       cats [Lit (CHR ''+''), Opt (Cls [Ch (CHR ''+''), Ch (CHR ''='')])],
       cats [Lit (CHR ''-''), Opt (Cls [Ch (CHR ''-''), Ch (CHR ''='')])],
       cats [Lit (CHR ''*''), Opt (Lit (CHR ''=''))],
       cats [Lit (CHR ''/''), Opt (Lit (CHR ''=''))],
       cats [Lit (CHR ''&''), Opt (Cls [Ch (CHR ''&''), Ch (CHR ''='')])],
       cats [Lit (CHR ''|''), Opt (Cls [Ch (CHR ''|''), Ch (CHR ''='')])],
       cats [Lit (CHR ''^''), Opt (Lit (CHR ''=''))],
       cats [Lit (CHR ''<''), Lit (CHR ''<''), Opt (Lit (CHR ''=''))],
       cats [Lit (CHR ''>''), Lit (CHR ''>''), Opt (Lit (CHR ''=''))],
       cats [Lit (CHR ''!''), Opt (Lit (CHR ''=''))],
       cats [Lit (CHR ''=''), Opt (Lit (CHR ''=''))],
       cats [Lit (CHR ''<''), Opt (Lit (CHR ''=''))],
       cats [Lit (CHR ''>''), Opt (Lit (CHR ''=''))],
       Cls [Ch (CHR ''?''), Ch (CHR '':''), Ch (CHR '';''), Ch (CHR ''~''), Ch (CHR ''[''), Ch (CHR '']''),
            Ch (CHR ''{''), Ch (CHR ''}''), Ch (CHR ''(''), Ch (CHR '')''), Ch (CHR '',''), Ch (CHR ''.'')]])"

definition expr_string :: rx where
  "expr_string =
     cats [NotAhead (Lit (CHR 0x5C)),
           Grp 1 (Lit (CHR 0x22)),
           Grp 2 (Star (Grp 3 (alts [NCls [Ch (CHR 0x22)], cats [Lit (CHR 0x5C), Lit (CHR 0x22)]]))),
           Grp 4 (Lit (CHR 0x22))]"

definition expr_char :: rx where
  "expr_char =
     cats [NotAhead (Lit (CHR 0x5C)),
           Grp 1 (Lit (CHR 0x27)),
           Grp 2 (alts [cats [Lit (CHR 0x5C), Cls [Ch (CHR 0x27), Ch (CHR 0x5C)]], Dot]),
           Grp 3 (Lit (CHR 0x27))]"

definition expr_constants :: rx where
  "expr_constants = Grp 1 (words [''NULL'', ''TRUE'', ''FALSE'', ''true'', ''false''])"

text \<open>
  The templates. \<open>wrap grp\<close> is \<^verbatim>\<open>'\032' + chr(grp) + '\\1\032\032'\<close>; \<open>quoted n\<close> is the
  template of the string and character literals, whose closing quote is group 4 and
  group 3. \<^verbatim>\<open>decor_syntax\<close> applies the ten substitutions in the order of the source.
\<close>

definition wrap :: "nat \<Rightarrow> titem list" where
  "wrap grp = [Txt [MARK, char_of grp], Ref 1, Txt [MARK, MARK]]"

definition quoted :: "nat \<Rightarrow> titem list" where
  "quoted closing =
     [Txt [MARK, CHR 0x07], Ref 1, Txt [MARK, MARK],
      Txt [MARK, CHR 0x06], Ref 2, Txt [MARK, CHR 0x19],
      Txt [MARK, CHR 0x07], Ref closing, Txt [MARK, MARK]]"

definition decor_syntax :: "string \<Rightarrow> string" where
  "decor_syntax line =
     (let line = sub expr_commentopen [Txt [MARK, CHR 0x0A], Ref 1] line;
          line = sub expr_commentclos [Ref 1, Txt [MARK, CHR 0x19]] line;
          line = sub expr_string (quoted 4) line;
          line = sub expr_char (quoted 3) line;
          line = sub expr_symbol (wrap 11) line;
          line = sub expr_numeric (wrap 8) line;
          line = sub expr_keyword (wrap 3) line;
          line = sub expr_type (wrap 5) line;
          line = sub expr_constants (wrap 9) line;
          line = sub expr_function (wrap 4) line
      in line)"

section \<open>Painting a line\<close>

text \<open>
  The part of \<^verbatim>\<open>render\<close> that paints one visible line. The line is cut to the window
  after its tabs are replaced by spaces, decorated, and walked through: a marker byte
  that is not the last character is followed by a group byte, read with
  \<^verbatim>\<open>int.from_bytes(bytes(ch, 'utf-8'), 'little')\<close>, and switches colours; every other
  character is painted. The model records, for each painted character, the colour pair
  that was switched on last (pair 1 is the default colour). \<open>exclusive\<close> and the pair
  outlive the line, \<open>activgrp\<close> starts at 0 on every line.
\<close>

definition utf8_le :: "char \<Rightarrow> nat" where
  "utf8_le c =
     (let n = code c in if n < 128 then n else (192 + n div 64) + 256 * (128 + n mod 64))"

fun paint :: "bool \<Rightarrow> nat \<Rightarrow> nat \<Rightarrow> string \<Rightarrow> (nat \<times> char) list \<times> bool \<times> nat" where
  "paint exclusive activgrp pair [] = ([], exclusive, pair)"
| "paint exclusive activgrp pair [c] = ([(pair, c)], exclusive, pair)"
| "paint exclusive activgrp pair (c # d # cs) =
     (if c = MARK then
        (let grp = utf8_le d in
         if \<not> exclusive \<and> grp = 26 \<and> activgrp > 0 then paint exclusive 0 1 cs
         else if grp = 25 then paint False 0 1 cs
         else if \<not> exclusive then paint (grp = 10 \<or> grp = 6) grp grp cs
         else paint exclusive activgrp pair cs)
      else (case paint exclusive activgrp pair (d # cs) of
              (cells, r) \<Rightarrow> ((pair, c) # cells, r)))"

definition expand_tabs :: "int \<Rightarrow> string \<Rightarrow> string" where
  "expand_tabs n line = concat (map (\<lambda>c. if c = TAB then py_rep SPC n else [c]) line)"

definition visible_text :: "state \<Rightarrow> string \<Rightarrow> string" where
  "visible_text s line =
     py_slice (expand_tabs (tabsz s) line) (bufofs_x s) (bufofs_x s + win_w s)"

definition render_row ::
  "state \<Rightarrow> bool \<Rightarrow> nat \<Rightarrow> string \<Rightarrow> (nat \<times> char) list \<times> bool \<times> nat" where
  "render_row s exclusive pair line = paint exclusive 0 pair (decor_syntax (visible_text s line))"

section \<open>Marker pairs\<close>

text \<open>
  \<open>strip\<close> removes, from the left, every marker byte together with the byte after it.
  A character is \<open>plain\<close> when its code point is 32 or more; every group byte that
  \<^verbatim>\<open>decor_syntax\<close> writes is below 32. \<open>wfm\<close> says that a text is a sequence of characters
  other than the marker and of pairs of the marker and a byte that is not plain.
\<close>

fun strip :: "string \<Rightarrow> string" where
  "strip [] = []"
| "strip [c] = (if c = MARK then [] else [c])"
| "strip (c # d # cs) = (if c = MARK then strip cs else c # strip (d # cs))"

definition plain :: "char \<Rightarrow> bool" where
  "plain c = (32 \<le> code c)"

fun wfm :: "string \<Rightarrow> bool" where
  "wfm [] = True"
| "wfm [c] = (c \<noteq> MARK)"
| "wfm (c # d # cs) = (if c = MARK then \<not> plain d \<and> wfm cs else wfm (d # cs))"

text \<open>
  Three syntactic checks on a pattern: every character it can consume is plain; every
  match of it consumes a character; the groups it contains.
\<close>

fun item_plain :: "citem \<Rightarrow> bool" where
  "item_plain (Ch d) = plain d"
| "item_plain (Rg lo hi) = plain lo"

fun plain_only :: "rx \<Rightarrow> bool" where
  "plain_only Eps = True"
| "plain_only (Lit d) = plain d"
| "plain_only Dot = False"
| "plain_only (Cls items) = list_all item_plain items"
| "plain_only (NCls items) = False"
| "plain_only Spc = False"
| "plain_only Bnd = True"
| "plain_only (Cat a b) = (plain_only a \<and> plain_only b)"
| "plain_only (Alt a b) = (plain_only a \<and> plain_only b)"
| "plain_only (Star a) = plain_only a"
| "plain_only (Opt a) = plain_only a"
| "plain_only (Grp n a) = plain_only a"
| "plain_only (Ahead a) = True"
| "plain_only (NotAhead a) = True"

fun nonnull :: "rx \<Rightarrow> bool" where
  "nonnull (Lit d) = True"
| "nonnull Dot = True"
| "nonnull (Cls items) = True"
| "nonnull (NCls items) = True"
| "nonnull Spc = True"
| "nonnull (Cat a b) = (nonnull a \<or> nonnull b)"
| "nonnull (Alt a b) = (nonnull a \<and> nonnull b)"
| "nonnull (Grp n a) = nonnull a"
| "nonnull r = False"

fun grps :: "rx \<Rightarrow> nat list" where
  "grps (Cat a b) = grps a @ grps b"
| "grps (Alt a b) = grps a @ grps b"
| "grps (Star a) = grps a"
| "grps (Opt a) = grps a"
| "grps (Grp n a) = n # grps a"
| "grps r = []"


section \<open>Properties: Python values\<close>

lemma py_get_nat: "i < length xs \<Longrightarrow> py_get xs (int i) = Inr (xs ! i)"
  by (simp add: py_get_def py_index_def py_len_def)

lemma py_set_nat: "i < length xs \<Longrightarrow> py_set xs (int i) v = Inr (xs[i := v])"
  by (simp add: py_set_def py_index_def py_len_def)

lemma py_set_last: "xs \<noteq> [] \<Longrightarrow> py_set xs (- 1) v = Inr (butlast xs @ [v])"
proof -
  assume ne: "xs \<noteq> []"
  then have "nat (int (length xs) - 1) = length xs - 1" by simp
  moreover have "xs[length xs - 1 := v] = butlast xs @ [v]"
    using ne by (induction xs) (auto split: nat.splits)
  moreover have "Suc 0 \<le> length xs" using ne by (cases xs) simp_all
  ultimately show ?thesis using ne by (simp add: py_set_def py_index_def py_len_def)
qed

lemma py_del_nat: "i < length xs \<Longrightarrow> py_del xs (int i) = Inr (take i xs @ drop (Suc i) xs)"
  by (simp add: py_del_def py_index_def py_len_def)

lemma py_upto_nat: "py_upto xs (int n) = take n xs"
  by (simp add: py_upto_def py_bound_def py_len_def min_def)

lemma py_from_nat: "py_from xs (int n) = drop n xs"
  by (simp add: py_from_def py_bound_def py_len_def min_def)

lemma py_upto_last: "py_upto xs (- 1) = butlast xs"
proof (cases "xs = []")
  case True
  then show ?thesis by (simp add: py_upto_def)
next
  case False
  then have "nat (int (length xs) - 1) = length xs - 1" by simp
  then show ?thesis
    using False by (simp add: py_upto_def py_bound_def py_len_def butlast_conv_take max_def)
qed

lemma and_then_Inr: "and_then (Inr v) f = f v"
  by (simp add: and_then_def)

lemma and_then_Inl: "and_then (Inl e) f = Inl e"
  by (simp add: and_then_def)

lemmas nat_simps = py_get_nat py_set_nat py_upto_nat py_from_nat py_upto_last py_set_last
  py_del_nat and_then_Inr and_then_Inl

section \<open>Properties: coordinate mapper\<close>

text \<open>
  Inside the line, \<^verbatim>\<open>bufpos2vispos\<close> is the reference walk: one column per character,
  \<open>tabsz\<close> per tab.
\<close>

lemma visual_width_Suc:
  "i < length ln \<Longrightarrow>
   visual_width ln t (Suc i) = visual_width ln t i + (if ln ! i = TAB then t else 1)"
  by (simp add: visual_width_def take_Suc_conv_app_nth)

lemma bufpos2vispos_loop_eq:
  "offs \<le> int (length ln) \<Longrightarrow> int i \<le> offs \<Longrightarrow>
   bufpos2vispos_loop ln t offs i ret
     = ret + visual_width ln t (nat offs) - visual_width ln t i"
proof (induction ln t offs i ret rule: bufpos2vispos_loop.induct)
  case (1 ln tabsz offs i ret)
  show ?case
  proof (cases "int i < offs")
    case True
    then have il: "i < length ln" using "1.prems" by linarith
    have "bufpos2vispos_loop ln tabsz offs i ret
          = bufpos2vispos_loop ln tabsz offs (Suc i)
              (if ln ! i = TAB then ret + tabsz else ret + 1)"
      using True by (subst bufpos2vispos_loop.simps) simp
    also have "\<dots> = (if ln ! i = TAB then ret + tabsz else ret + 1)
                 + visual_width ln tabsz (nat offs) - visual_width ln tabsz (Suc i)"
      using "1.IH" [OF True] "1.prems" True by simp
    finally show ?thesis using visual_width_Suc [OF il, of tabsz] by simp
  next
    case False
    then have "nat offs = i" using "1.prems" by linarith
    then show ?thesis using False by (subst bufpos2vispos_loop.simps) simp
  qed
qed

lemma bufpos2vispos_in_range:
  "0 \<le> offs \<Longrightarrow> offs \<le> py_len ln \<Longrightarrow>
   bufpos2vispos ln t offs = visual_width ln t (nat offs)"
  using bufpos2vispos_loop_eq [of offs ln 0 t 0]
  by (simp add: bufpos2vispos_def py_len_def visual_width_def)

lemma bufpos2vispos_nonpos:
  "offs \<le> 0 \<Longrightarrow> bufpos2vispos ln t offs = 0"
  by (simp add: bufpos2vispos_def py_len_def bufpos2vispos_loop.simps)

lemma visual_width_mono:
  "0 \<le> t \<Longrightarrow> m \<le> n \<Longrightarrow> visual_width ln t m \<le> visual_width ln t n"
proof -
  assume t: "0 \<le> t" and mn: "m \<le> n"
  have "take n ln = take m ln @ take (n - m) (drop m ln)"
    using mn by (metis le_add_diff_inverse take_add)
  moreover have "0 \<le> (\<Sum>c\<leftarrow>take (n - m) (drop m ln). if c = TAB then t else 1)"
    using t by (intro sum_list_nonneg) auto
  ultimately show ?thesis by (simp add: visual_width_def)
qed

lemma bufpos2vispos_mono_in_range:
  "0 \<le> t \<Longrightarrow> a \<le> b \<Longrightarrow> b \<le> py_len ln \<Longrightarrow>
   bufpos2vispos ln t a \<le> bufpos2vispos ln t b"
proof -
  assume t: "0 \<le> t" and ab: "a \<le> b" and b: "b \<le> py_len ln"
  show ?thesis
  proof (cases "a \<le> 0")
    case True
    then show ?thesis
    proof (cases "b \<le> 0")
      case True
      with \<open>a \<le> 0\<close> show ?thesis by (simp add: bufpos2vispos_nonpos)
    next
      case False
      then have "bufpos2vispos ln t b = visual_width ln t (nat b)"
        using b by (simp add: bufpos2vispos_in_range)
      moreover have "0 \<le> visual_width ln t (nat b)"
        using visual_width_mono [OF t, of 0 "nat b" ln] by (simp add: visual_width_def)
      ultimately show ?thesis using True by (simp add: bufpos2vispos_nonpos)
    qed
  next
    case False
    then show ?thesis
      using ab b t by (simp add: bufpos2vispos_in_range visual_width_mono)
  qed
qed

lemma bufpos2vispos_examples:
  "bufpos2vispos (TAB # ''foo'') 3 1 = 3 \<and> bufpos2vispos (TAB # ''foo'') 3 4 = 6"
  by (simp add: bufpos2vispos_def py_len_def bufpos2vispos_loop.simps)

text \<open>
  C3. The claim: \<^verbatim>\<open>bufpos2vispos\<close> is the reference walk, past the end of the line it
  returns the visual width of the whole line, and so it never decreases as the offset
  grows. Past the end the code returns the number of characters of the line instead: on
  the line of one tab with tab width 3, offset 2 gives 1 while the visual width of the
  line is 3, which is also what offset 1 gives.
\<close>

theorem bufpos2vispos_past_end_is_length:
  "bufpos2vispos [TAB] 3 2 = 1 \<and>
   visual_width [TAB] 3 (length [TAB]) = 3 \<and>
   bufpos2vispos [TAB] 3 1 = 3"
  by (simp add: bufpos2vispos_def py_len_def bufpos2vispos_loop.simps visual_width_def)

text \<open>
  C2. The claim: \<^verbatim>\<open>vispos2bufpos\<close> undoes \<^verbatim>\<open>bufpos2vispos\<close> at every offset that is not
  inside a tab. On the line \<^verbatim>\<open>abc\<close>, which has no tab, with tab width 1, offset 1 has
  visual column 1, and the code maps visual column 1 back to offset 0.
\<close>

theorem vispos2bufpos_not_inverse:
  "bufpos2vispos ''abc'' 1 1 = 1 \<and> vispos2bufpos ''abc'' 1 (bufpos2vispos ''abc'' 1 1) = 0"
  by (simp add: bufpos2vispos_def vispos2bufpos_def py_len_def py_slice_def py_bound_def
      py_rep_def bufpos2vispos_loop.simps vispos2bufpos_loop.simps)

section \<open>Properties: cursor movement\<close>

lemma vispos2bufpos_abcdefgh: "vispos2bufpos ''abcdefgh'' 4 4 = 0"
  by (simp add: vispos2bufpos_def py_len_def py_slice_def py_bound_def py_rep_def
      vispos2bufpos_loop.simps)

lemma bufpos2vispos_tab_abc: "bufpos2vispos (TAB # ''abc'') 4 1 = 4"
  by (simp add: bufpos2vispos_def py_len_def bufpos2vispos_loop.simps)

text \<open>
  The new column of a move down is computed as the specification says, from the visual
  column on the old line.
\<close>

lemma move_cursor_etc_down_column:
  assumes "bufcur_y s = int y" and "Suc y < length (buffer s)"
  shows "\<exists>s'. move_cursor_etc s ''d'' = Inr s' \<and> bufcur_y s' = int (Suc y) \<and>
           bufcur_x s' = vispos2bufpos (buffer s ! Suc y) (tabsz s)
                           (bufpos2vispos (buffer s ! y) (tabsz s) (bufcur_x s))"
proof -
  have a: "int y + 1 = int (Suc y)" by simp
  have y: "y < length (buffer s)" using assms(2) by simp
  show ?thesis
    unfolding move_cursor_etc_def
    using assms(2) y
    by (simp add: assms(1) a py_get_nat and_then_Inr py_len_def Let_def del: of_nat_Suc)
qed

lemma vispos2bufpos_zero: "vispos2bufpos ln t 0 = 0"
  by (simp add: vispos2bufpos_def py_len_def vispos2bufpos_loop.simps)

text \<open>
  C1. The claim: a vertical move keeps the visual column, moving down and up again
  returns to it, and with tab width 4 the move down from visual column 4 of the line
  TAB \<^verbatim>\<open>abc\<close> (offset 1) lands on offset 4 of \<^verbatim>\<open>abcdefgh\<close>. In both variants the move
  lands on offset 0, whose visual column is 0, and the move back up lands on offset 0 of
  the first line.
\<close>

theorem move_cursor_down_loses_column:
  "move_cursor_etc
     (init_etc\<lparr>buffer := [TAB # ''abc'', ''abcdefgh''], tabsz := 4, bufcur_x := 1,
               win_w := 80, win_h := 24\<rparr>) ''d''
   = Inr (init_etc\<lparr>buffer := [TAB # ''abc'', ''abcdefgh''], tabsz := 4, bufcur_x := 0,
                  win_w := 80, win_h := 24, bufcur_y := 1\<rparr>) \<and>
   move_cursor_etc
     (init_etc\<lparr>buffer := [TAB # ''abc'', ''abcdefgh''], tabsz := 4, bufcur_x := 0,
               win_w := 80, win_h := 24, bufcur_y := 1\<rparr>) ''u''
   = Inr (init_etc\<lparr>buffer := [TAB # ''abc'', ''abcdefgh''], tabsz := 4, bufcur_x := 0,
                  win_w := 80, win_h := 24, bufcur_y := 0\<rparr>) \<and>
   move_cursor_base
     (init_base\<lparr>buffer := [TAB # ''abc'', ''abcdefgh''], tabsz := 4, bufcur_x := 1\<rparr>) ''d''
   = Inr (init_base\<lparr>buffer := [TAB # ''abc'', ''abcdefgh''], tabsz := 4, bufcur_x := 0,
                   bufcur_y := 1\<rparr>) \<and>
   bufpos2vispos (TAB # ''abc'') 4 1 = 4 \<and>
   bufpos2vispos ''abcdefgh'' 4 0 = 0"
  by (simp add: move_cursor_etc_def move_cursor_base_def init_etc_def init_base_def
      py_get_def py_index_def py_len_def and_then_def vispos2bufpos_abcdefgh
      bufpos2vispos_tab_abc bufpos2vispos_nonpos vispos2bufpos_zero)

section \<open>Properties: Return and Backspace\<close>

text \<open>
  The extended variant splits the line at the cursor when the line is not the last one
  and the cursor is before its end.
\<close>

lemma enter_etc_split:
  assumes y: "bufcur_y s = int y" "Suc y < length (buffer s)"
    and x: "bufcur_x s = int x" "x < length (buffer s ! y)"
  shows "key_enter_etc s =
         Inr (s\<lparr>buffer := take y (buffer s) @ [take x (buffer s ! y), drop x (buffer s ! y)]
                              @ drop (Suc y) (buffer s),
                bufcur_y := int (Suc y), bufcur_x := 0\<rparr>)"
proof -
  have a: "int y + 1 = int (Suc y)" by simp
  have yl: "y < length (buffer s)" using y by simp
  have lt: "int y < int (length (buffer s)) - 1" using y by simp
  have b: "take (Suc y) (buffer s) \<noteq> []" using yl by (cases "buffer s") auto
  have c: "butlast (take (Suc y) (buffer s)) = take y (buffer s)"
    using yl by (simp add: butlast_take)
  have "drop y (buffer s) = buffer s ! y # drop (Suc y) (buffer s)"
    using yl by (simp add: Cons_nth_drop_Suc)
  then have d: "py_set (drop y (buffer s)) 0 v = Inr (v # drop (Suc y) (buffer s))" for v
    by (simp add: py_set_def py_index_def py_len_def)
  show ?thesis
    unfolding key_enter_etc_def
    using yl lt x(2) b
    by (simp add: y(1) x(1) a c d py_get_nat py_set_last py_upto_nat py_from_nat and_then_Inr
        py_len_def del: of_nat_Suc)
qed

text \<open>The branches of Backspace in the extended variant, each with the state it produces.\<close>

lemma backspace_etc_join:
  assumes y: "bufcur_y s = int y" "0 < y" "y < length (buffer s)"
    and x: "bufcur_x s = 0" and ne: "buffer s ! y \<noteq> []"
  shows "key_backspace_etc s =
         Inr (s\<lparr>buffer := take (y - 1) (buffer s) @ [buffer s ! (y - 1) @ buffer s ! y]
                              @ drop (Suc y) (buffer s),
                bufcur_y := int (y - 1), bufcur_x := int (length (buffer s ! (y - 1)))\<rparr>)"
proof -
  have a: "int y - 1 = int (y - 1)" "int y + 1 = int (Suc y)"
    using y by simp_all
  have b: "y - 1 < length (buffer s)" using y by simp
  have c: "take y (buffer s) \<noteq> []" using y by auto
  have d: "butlast (take y (buffer s)) = take (y - 1) (buffer s)"
    using y by (simp add: butlast_take)
  have e: "buffer s \<noteq> [[]]" using y by (cases "buffer s") auto
  have f: "\<not> (bufcur_x s = 0 \<and> bufcur_y s = 0)" using y by simp
  show ?thesis
    unfolding key_backspace_etc_def key_backspace_gen_def key_backspace_join_def
    using ne b c e f y(3)
    by (simp add: a x py_get_nat py_set_last py_upto_nat py_from_nat and_then_Inr d y(1) py_len_def Let_def del: of_nat_diff of_nat_Suc)
qed


lemma backspace_etc_keep:
  "buffer s = [[]] \<or> (bufcur_x s = 0 \<and> bufcur_y s = 0) \<Longrightarrow> key_backspace_etc s = Inr s"
  by (auto simp: key_backspace_etc_def key_backspace_gen_def)

lemma backspace_etc_drop_empty:
  assumes y: "bufcur_y s = int y" "0 < y" "y < length (buffer s)"
    and em: "buffer s ! y = []"
  shows "key_backspace_etc s =
         Inr (s\<lparr>buffer := take y (buffer s) @ drop (Suc y) (buffer s),
                bufcur_y := int (y - 1), bufcur_x := int (length (buffer s ! (y - 1)))\<rparr>)"
proof -
  have a: "int y - 1 = int (y - 1)" "int y + 1 = int (Suc y)"
    using y by simp_all
  have e: "buffer s \<noteq> [[]]" using y by (cases "buffer s") auto
  have f: "\<not> (bufcur_x s = 0 \<and> bufcur_y s = 0)" using y by simp
  have g: "(take y (buffer s) @ drop (Suc y) (buffer s)) ! (y - 1) = buffer s ! (y - 1)"
    using y by (simp add: nth_append)
  have h: "y - 1 < length (take y (buffer s) @ drop (Suc y) (buffer s))"
    using y by simp
  show ?thesis
  proof (cases "Suc y < length (buffer s)")
    case True
    then have lt: "int y < int (length (buffer s)) - 1" by simp
    show ?thesis
      unfolding key_backspace_etc_def key_backspace_gen_def
      using e f y(2) y(3) lt em g h
      by (simp add: a py_get_nat py_upto_nat py_from_nat and_then_Inr y(1) py_len_def Let_def
          del: of_nat_diff of_nat_Suc length_append length_take length_drop)
  next
    case False
    then have yl: "Suc y = length (buffer s)" using y(3) by simp
    then have nlt: "\<not> int y < int (length (buffer s)) - 1" by simp
    have bl: "butlast (buffer s) = take y (buffer s) @ drop (Suc y) (buffer s)"
      using yl [symmetric] by (simp add: butlast_conv_take)
    show ?thesis
      unfolding key_backspace_etc_def key_backspace_gen_def
      using e f y(2) y(3) nlt em g h
      by (simp add: a py_get_nat py_upto_last bl and_then_Inr y(1) py_len_def Let_def
          del: of_nat_diff of_nat_Suc length_append length_take length_drop)
  qed
qed

lemma backspace_etc_char:
  assumes y: "bufcur_y s = int y" "y < length (buffer s)"
    and x: "bufcur_x s = int x" "0 < x" "x \<le> length (buffer s ! y)"
  shows "key_backspace_etc s =
         Inr (s\<lparr>buffer := (buffer s)[y := take (x - 1) (buffer s ! y) @ drop x (buffer s ! y)],
                bufcur_x := int (x - 1)\<rparr>)"
proof -
  have a: "int x - 1 = int (x - 1)" using x by simp
  have e: "buffer s \<noteq> [[]]" using y x by (cases "buffer s") auto
  have ne: "buffer s ! y \<noteq> []" using x by auto
  show ?thesis
  proof (cases "x < length (buffer s ! y)")
    case True
    then show ?thesis
      unfolding key_backspace_etc_def key_backspace_gen_def
      using e ne y(2) x(2)
      by (simp add: a py_get_nat py_set_nat py_upto_nat py_from_nat and_then_Inr y(1) x(1)
          py_len_def Let_def del: of_nat_diff of_nat_Suc)
  next
    case False
    then have xl: "x = length (buffer s ! y)" using x(3) by simp
    have bl: "butlast (buffer s ! y) = take (x - 1) (buffer s ! y) @ drop x (buffer s ! y)"
      using xl by (simp add: butlast_conv_take)
    show ?thesis
      unfolding key_backspace_etc_def key_backspace_gen_def
      using e ne y(2) x(2) False
      by (simp add: a py_get_nat py_set_nat py_upto_last bl and_then_Inr y(1) x(1)
          py_len_def Let_def del: of_nat_diff of_nat_Suc)
  qed
qed

text \<open>
  Splitting a line with Return and joining the two halves with Backspace gives the state
  before the split (extended variant, where the split happens).
\<close>

lemma enter_backspace_etc_roundtrip:
  assumes y: "bufcur_y s = int y" "Suc y < length (buffer s)"
    and x: "bufcur_x s = int x" "x < length (buffer s ! y)"
  shows "and_then (key_enter_etc s) key_backspace_etc = Inr s"
proof -
  define buf where "buf = buffer s"
  define s1 where "s1 = s\<lparr>buffer := take y buf @ [take x (buf ! y), drop x (buf ! y)]
                              @ drop (Suc y) buf,
                bufcur_y := int (Suc y), bufcur_x := 0\<rparr>"
  have yl: "y < length buf" using y by (simp add: buf_def)
  have e: "key_enter_etc s = Inr s1"
    using enter_etc_split [OF y x] by (simp add: s1_def buf_def)
  have n1: "buffer s1 ! Suc y = drop x (buf ! y)"
    using yl by (simp add: s1_def nth_append)
  have n0: "buffer s1 ! y = take x (buf ! y)"
    using yl by (simp add: s1_def nth_append)
  have ne: "buffer s1 ! Suc y \<noteq> []" using x n1 by (simp add: buf_def)
  have len: "Suc y < length (buffer s1)" using yl by (simp add: s1_def)
  have tk: "take y (buffer s1) = take y buf" using yl by (simp add: s1_def)
  have dr: "drop (Suc (Suc y)) (buffer s1) = drop (Suc y) buf" using yl by (simp add: s1_def)
  have xl: "length (take x (buf ! y)) = x" using x by (simp add: buf_def)
  have "key_backspace_etc s1 =
         Inr (s1\<lparr>buffer := take y (buffer s1) @ [buffer s1 ! y @ buffer s1 ! Suc y]
                              @ drop (Suc (Suc y)) (buffer s1),
                bufcur_y := int y, bufcur_x := int (length (buffer s1 ! y))\<rparr>)"
    using backspace_etc_join [of s1 "Suc y", OF _ _ len _ ne] by (simp add: s1_def)
  also have "\<dots> = Inr (s1\<lparr>buffer := take y buf @ [buf ! y] @ drop (Suc y) buf,
                bufcur_y := int y, bufcur_x := int x\<rparr>)"
    by (simp only: n0 n1 tk dr xl append_take_drop_id)
  also have "\<dots> = Inr s"
    using yl y(1) x(1) by (simp add: s1_def buf_def id_take_nth_drop [symmetric])
  finally show ?thesis using e by (simp add: and_then_Inr)
qed

text \<open>
  The example of the specification: typing \<^verbatim>\<open>hello\<close> into a fresh editor, then Return,
  then Backspace, leaves the one line \<^verbatim>\<open>hello\<close> with the cursor at offset 5.
\<close>

lemma hello_return_backspace_etc:
  "run_keys (mainloop_etc no_files) (ticks (24, 80) [104, 101, 108, 108, 111, 10, 127]) init_etc
   = Inr (init_etc\<lparr>win_h := 24, win_w := 80, key := 127, buffer := [''hello''],
                  bufcur_x := 5\<rparr>)"
  by (simp add: ticks_def render_def mainloop_etc_def ins_chr_def key_enter_etc_def key_backspace_etc_def
      key_backspace_gen_def init_etc_def py_get_def py_index_def py_set_def py_chr_def py_len_def
      py_upto_def py_from_def py_bound_def and_then_def char_of_def)

lemma hello_return_backspace_base:
  "run_keys (mainloop_base no_files) (ticks (24, 80) [104, 101, 108, 108, 111, 10, 127]) init_base
   = Inr (init_base\<lparr>win_h := 24, win_w := 80, key := 127, buffer := [''hello''],
                   bufcur_x := 5\<rparr>)"
  by (simp add: ticks_def render_def mainloop_base_def ins_chr_def key_enter_base_def key_backspace_base_def
      key_backspace_gen_def init_base_def py_get_def py_index_def py_set_def py_chr_def py_len_def
      py_upto_def py_from_def py_bound_def and_then_def char_of_def)

text \<open>
  C4. The claim: Return outside command mode splits the current line at the cursor, for
  every document and cursor. In the extended variant the branch for a line that is not
  the last does so (\<open>enter_etc_split\<close>); the branch for the last line appends an empty
  line and leaves the text after the cursor where it was. With the one line \<^verbatim>\<open>hello\<close>
  and the cursor at offset 2, Return gives \<^verbatim>\<open>hello\<close> and an empty line, not \<^verbatim>\<open>he\<close> and
  \<^verbatim>\<open>llo\<close>.
\<close>

theorem enter_etc_last_line_not_split:
  "mainloop_etc no_files \<lparr>maxyx = (24, 80), getch = 10\<rparr>
     (init_etc\<lparr>buffer := [''hello''], bufcur_x := 2\<rparr>)
   = Inr (0, init_etc\<lparr>win_h := 24, win_w := 80, key := 10, buffer := [''hello'', []],
                     bufcur_x := 0, bufcur_y := 1\<rparr>)"
  by (simp add: render_def mainloop_etc_def key_enter_etc_def init_etc_def py_get_def
      py_index_def py_len_def and_then_def)

text \<open>The base variant never splits: Return puts an empty line after the current one.\<close>

lemma enter_base_never_splits:
  "mainloop_base no_files \<lparr>maxyx = (24, 80), getch = 10\<rparr>
     (init_base\<lparr>buffer := [''hello'', ''x''], bufcur_x := 2\<rparr>)
   = Inr (0, init_base\<lparr>win_h := 24, win_w := 80, key := 10, buffer := [''hello'', [], ''x''],
                      bufcur_x := 0, bufcur_y := 1\<rparr>)"
  by (simp add: render_def mainloop_base_def key_enter_base_def init_base_def py_get_def
      py_index_def py_len_def py_upto_def py_from_def py_bound_def and_then_def)

text \<open>
  C5. The claim: with the cursor at column 0 of a non-empty line that is not the first,
  Backspace joins the line onto the previous one, removes exactly that line, and puts the
  cursor at the old length of the previous line. The extended variant does
  (\<open>backspace_etc_join\<close>). The base variant takes the column from the number of lines
  before the previous one and overwrites the line before the previous one: on the lines
  \<^verbatim>\<open>ab\<close>, \<^verbatim>\<open>cd\<close>, \<^verbatim>\<open>ef\<close> with the cursor at the start of \<^verbatim>\<open>ef\<close>, the document becomes
  the one line \<^verbatim>\<open>cdef\<close> and the cursor row 1, column 1.
\<close>

theorem backspace_base_join_loses_line:
  "mainloop_base no_files \<lparr>maxyx = (24, 80), getch = 127\<rparr>
     (init_base\<lparr>buffer := [''ab'', ''cd'', ''ef''], bufcur_y := 2\<rparr>)
   = Inr (0, init_base\<lparr>win_h := 24, win_w := 80, key := 127, buffer := [''cdef''],
                      bufcur_y := 1, bufcur_x := 1\<rparr>)"
  by (simp add: render_def mainloop_base_def key_backspace_base_def key_backspace_gen_def
      key_backspace_join_def init_base_def py_get_def py_index_def py_set_def py_len_def py_upto_def
      py_from_def py_bound_def and_then_def)


section \<open>Properties: the document never becomes empty\<close>

lemma key_backspace_etc_in_bounds:
  assumes "in_bounds s"
  shows "\<exists>s'. key_backspace_etc s = Inr s' \<and> in_bounds s'"
proof -
  define y where "y = nat (bufcur_y s)"
  define x where "x = nat (bufcur_x s)"
  have y: "bufcur_y s = int y" "y < length (buffer s)"
    and x: "bufcur_x s = int x" "x \<le> length (buffer s ! y)"
    using assms by (auto simp: in_bounds_def y_def x_def py_len_def)
  consider (keep) "buffer s = [[]] \<or> (bufcur_x s = 0 \<and> bufcur_y s = 0)"
    | (drop_empty) "0 < y" "buffer s ! y = []"
    | (join) "0 < y" "x = 0" "buffer s ! y \<noteq> []"
    | (char) "0 < x"
    using x y by (cases "buffer s ! y = []"; cases "x = 0"; cases "y = 0") auto
  then show ?thesis
  proof cases
    case keep
    then show ?thesis using assms backspace_etc_keep by blast
  next
    case drop_empty
    have "in_bounds (s\<lparr>buffer := take y (buffer s) @ drop (Suc y) (buffer s),
                bufcur_y := int (y - 1), bufcur_x := int (length (buffer s ! (y - 1)))\<rparr>)"
      using y drop_empty by (simp add: in_bounds_def py_len_def nth_append del: of_nat_diff)
    then show ?thesis
      using backspace_etc_drop_empty [OF y(1) drop_empty(1) y(2) drop_empty(2)] by blast
  next
    case join
    have "in_bounds (s\<lparr>buffer := take (y - 1) (buffer s) @ [buffer s ! (y - 1) @ buffer s ! y]
                              @ drop (Suc y) (buffer s),
                bufcur_y := int (y - 1), bufcur_x := int (length (buffer s ! (y - 1)))\<rparr>)"
      using y join by (simp add: in_bounds_def py_len_def nth_append del: of_nat_diff)
    moreover have "bufcur_x s = 0" using x join by simp
    ultimately show ?thesis
      using backspace_etc_join [OF y(1) join(1) y(2) _ join(3)] by blast
  next
    case char
    have "in_bounds (s\<lparr>buffer := (buffer s)[y := take (x - 1) (buffer s ! y) @ drop x (buffer s ! y)],
                bufcur_x := int (x - 1)\<rparr>)"
      using y x char by (simp add: in_bounds_def py_len_def del: of_nat_diff)
    then show ?thesis
      using backspace_etc_char [OF y x(1) char x(2)] by blast
  qed
qed

lemma key_del_etc_in_bounds:
  assumes "in_bounds s"
  shows "\<exists>s'. key_del_etc s = Inr s' \<and> in_bounds s'"
proof -
  define y where "y = nat (bufcur_y s)"
  define x where "x = nat (bufcur_x s)"
  have y: "bufcur_y s = int y" "y < length (buffer s)"
    and x: "bufcur_x s = int x" "x \<le> length (buffer s ! y)"
    using assms by (auto simp: in_bounds_def y_def x_def py_len_def)
  show ?thesis
    using y x
    by (auto simp: key_del_etc_def in_bounds_def py_len_def py_get_def py_index_def py_set_def py_del_def
        py_upto_def py_from_def py_bound_def and_then_def Let_def nth_append min_def
        nat_add_distrib nth_list_update)
qed

lemma in_bounds_nonempty: "in_bounds s \<Longrightarrow> 1 \<le> length (buffer s)"
  by (cases "buffer s") (auto simp: in_bounds_def py_len_def)

lemma apply_edit_in_bounds:
  "in_bounds s \<Longrightarrow> \<exists>s'. apply_edit e s = Inr s' \<and> in_bounds s'"
  by (cases e) (simp_all add: key_backspace_etc_in_bounds key_del_etc_in_bounds)

text \<open>
  C6. From a document with an in-bounds cursor (so with at least one line), every
  sequence of the operations Backspace and Del of the extended variant runs without an
  exception and ends in a document with at least one line, the cursor still in bounds.
\<close>

theorem backspace_del_keep_document:
  "in_bounds s \<Longrightarrow>
   \<exists>s'. apply_edits es s = Inr s' \<and> 1 \<le> length (buffer s') \<and> in_bounds s'"
proof (induction es arbitrary: s)
  case Nil
  then show ?case using in_bounds_nonempty [of s] by simp
next
  case (Cons e es)
  from apply_edit_in_bounds [OF Cons.prems, of e] obtain s1
    where s1: "apply_edit e s = Inr s1" "in_bounds s1" by blast
  from Cons.IH [OF s1(2)] s1(1) show ?case by (simp add: and_then_Inr)
qed

theorem backspace_del_keep_document_witness:
  "in_bounds (init_etc\<lparr>buffer := [''ab'', ''c''], bufcur_y := 1\<rparr>) \<and>
   (\<exists>s'. apply_edits [Backspace, Del, Backspace, Backspace, Del, Del, Del, Backspace]
            (init_etc\<lparr>buffer := [''ab'', ''c''], bufcur_y := 1\<rparr>) = Inr s' \<and>
         1 \<le> length (buffer s') \<and> in_bounds s')"
proof -
  have h: "in_bounds (init_etc\<lparr>buffer := [''ab'', ''c''], bufcur_y := 1\<rparr>)"
    by (simp add: in_bounds_def init_etc_def py_len_def)
  show ?thesis
    using h backspace_del_keep_document [OF h] by blast
qed

text \<open>
  In the main loop the two keys meet \<^verbatim>\<open>render\<close> first, whose read of
  \<^verbatim>\<open>s.buffer[s.bufcur_y - s.bufofs_y]\<close> can raise: Backspace moves the cursor up and
  leaves the viewport where it was. A round with one of the two keys either raises
  IndexError in \<^verbatim>\<open>render\<close>, before the key is looked at, or keeps the cursor in bounds;
  so a run of such rounds that ends normally ends in a document with at least one line,
  and a run that raises had such a document before the round that raised.
\<close>

lemma render_in_bounds:
  "render t s = Inr s' \<Longrightarrow> buffer s' = buffer s \<and> bufcur_x s' = bufcur_x s \<and>
     bufcur_y s' = bufcur_y s \<and> cmdmode s' = cmdmode s"
  by (auto simp: render_def and_then_def Let_def split: if_splits sum.splits)

lemma render_raises: "render t s = Inl e \<Longrightarrow> e = IndexError"
  by (auto simp: render_def and_then_def py_get_def Let_def
      split: if_splits sum.splits option.splits)

lemma mainloop_etc_del_backspace:
  assumes "in_bounds s" and "getch t = 127 \<or> getch t = 330"
  shows "mainloop_etc w t s = Inl IndexError \<and> render t s = Inl IndexError
         \<or> (\<exists>s'. mainloop_etc w t s = Inr (0, s') \<and> in_bounds s')"
proof (cases "render t s")
  case (Inl e)
  then show ?thesis using render_raises [OF Inl] by (simp add: mainloop_etc_def and_then_def)
next
  case (Inr s1)
  have "in_bounds s1" using render_in_bounds [OF Inr] assms(1) by (simp add: in_bounds_def)
  then have ib: "in_bounds (s1\<lparr>key := getch t\<rparr>)" by (simp add: in_bounds_def)
  from assms(2) show ?thesis
  proof
    assume k: "getch t = 127"
    show ?thesis
    proof (cases "cmdmode s1")
      case True
      then show ?thesis using k ib Inr
        by (simp add: mainloop_etc_def in_bounds_def and_then_def)
    next
      case False
      obtain s' where "key_backspace_etc (s1\<lparr>key := getch t\<rparr>) = Inr s'" "in_bounds s'"
        using key_backspace_etc_in_bounds [OF ib] by blast
      then show ?thesis using k False Inr by (simp add: mainloop_etc_def and_then_def)
    qed
  next
    assume k: "getch t = 330"
    obtain s' where "key_del_etc (s1\<lparr>key := getch t\<rparr>) = Inr s'" "in_bounds s'"
      using key_del_etc_in_bounds [OF ib] by blast
    then show ?thesis using k Inr by (simp add: mainloop_etc_def and_then_def)
  qed
qed

lemma run_keys_del_backspace:
  assumes "in_bounds s" and "list_all (\<lambda>t. getch t = 127 \<or> getch t = 330) ts"
  shows "run_keys (mainloop_etc w) ts s = Inl IndexError
         \<or> (\<exists>s'. run_keys (mainloop_etc w) ts s = Inr s' \<and> 1 \<le> length (buffer s') \<and>
                  in_bounds s')"
  using assms
proof (induction ts arbitrary: s)
  case Nil
  then show ?case using in_bounds_nonempty [of s] by simp
next
  case (Cons t ts)
  from Cons.prems(2) have k: "getch t = 127 \<or> getch t = 330" and r: "list_all (\<lambda>t. getch t = 127 \<or> getch t = 330) ts"
    by simp_all
  from mainloop_etc_del_backspace [OF Cons.prems(1) k, of w] show ?case
  proof
    assume "mainloop_etc w t s = Inl IndexError \<and> render t s = Inl IndexError"
    then show ?thesis by simp
  next
    assume "\<exists>s'. mainloop_etc w t s = Inr (0, s') \<and> in_bounds s'"
    then obtain s1 where s1: "mainloop_etc w t s = Inr (0, s1)" "in_bounds s1" by blast
    from Cons.IH [OF s1(2) r] s1(1) show ?thesis by simp
  qed
qed

text \<open>
  Both happen. With the lines \<^verbatim>\<open>a\<close>, \<^verbatim>\<open>b\<close>, \<^verbatim>\<open>c\<close>, the cursor at the end of the last one
  and the viewport on that line, four Backspaces leave the line \<^verbatim>\<open>a\<close>, and the round of
  the fifth raises in \<^verbatim>\<open>render\<close>.
\<close>

lemma backspace_render_raises:
  "run_keys (mainloop_etc no_files) (ticks (24, 80) [127, 127, 127, 127])
     (init_etc\<lparr>buffer := [''a'', ''b'', ''c''], bufcur_y := 2, bufcur_x := 1, bufofs_y := 2\<rparr>)
   = Inr (init_etc\<lparr>win_h := 24, win_w := 80, key := 127, buffer := [''a''], bufcur_y := 0,
                  bufcur_x := 1, bufofs_y := 2\<rparr>) \<and>
   run_keys (mainloop_etc no_files) (ticks (24, 80) [127, 127, 127, 127, 127])
     (init_etc\<lparr>buffer := [''a'', ''b'', ''c''], bufcur_y := 2, bufcur_x := 1, bufofs_y := 2\<rparr>)
   = Inl IndexError"
  by (simp add: ticks_def render_def mainloop_etc_def key_backspace_etc_def
      key_backspace_gen_def key_backspace_join_def init_etc_def py_get_def py_index_def
      py_set_def py_len_def py_upto_def py_from_def py_bound_def and_then_def)

section \<open>Properties: commands\<close>

text \<open>
  The commands \<^verbatim>\<open>h\<close>, \<^verbatim>\<open>e\<close>, \<^verbatim>\<open>va\<close> and \<^verbatim>\<open>ha\<close> of the extended variant keep an in-bounds
  cursor in bounds.
\<close>

lemma do_cmd_etc_h_e_va_ha_in_bounds:
  assumes "in_bounds s" and "cmdbuffer s \<in> {''h'', ''e'', ''va'', ''ha''}"
  shows "\<exists>s'. do_cmd_etc w s = Inr (0, s') \<and> in_bounds s'"
proof -
  define y where "y = nat (bufcur_y s)"
  have y: "bufcur_y s = int y" "y < length (buffer s)"
    using assms(1) by (auto simp: in_bounds_def y_def py_len_def)
  show ?thesis
    using assms y
    by (auto simp: do_cmd_etc_def cmd_end_def cmd_halign_def startswith_def in_bounds_def
        py_get_nat and_then_Inr py_len_def)
qed

text \<open>
  So do typing a character, Return, and the moves to the left and to the right
  (extended variant).
\<close>

lemma ins_chr_in_bounds:
  assumes "in_bounds s" and "0 \<le> key s" and "key s < 256"
  shows "\<exists>s'. ins_chr s = Inr s' \<and> in_bounds s'"
proof -
  define y where "y = nat (bufcur_y s)"
  define x where "x = nat (bufcur_x s)"
  have y: "bufcur_y s = int y" "y < length (buffer s)"
    and x: "bufcur_x s = int x" "x \<le> length (buffer s ! y)"
    using assms(1) by (auto simp: in_bounds_def y_def x_def py_len_def)
  show ?thesis
    using y x assms(2,3)
    by (auto simp: ins_chr_def in_bounds_def py_get_nat py_set_nat py_upto_nat py_from_nat
        py_chr_def and_then_Inr py_len_def Let_def)
qed

lemma key_enter_etc_in_bounds:
  assumes "in_bounds s"
  shows "\<exists>s'. key_enter_etc s = Inr s' \<and> in_bounds s'"
proof -
  define y where "y = nat (bufcur_y s)"
  define x where "x = nat (bufcur_x s)"
  have y: "bufcur_y s = int y" "y < length (buffer s)"
    and x: "bufcur_x s = int x" "x \<le> length (buffer s ! y)"
    using assms(1) by (auto simp: in_bounds_def y_def x_def py_len_def)
  show ?thesis
  proof (cases "Suc y < length (buffer s)")
    case True
    show ?thesis
    proof (cases "x < length (buffer s ! y)")
      case xl: True
      have "in_bounds (s\<lparr>buffer := take y (buffer s) @ [take x (buffer s ! y), drop x (buffer s ! y)]
                              @ drop (Suc y) (buffer s),
                bufcur_y := int (Suc y), bufcur_x := 0\<rparr>)"
        using y True by (simp add: in_bounds_def py_len_def del: of_nat_Suc)
      then show ?thesis using enter_etc_split [OF y(1) True x(1) xl] by blast
    next
      case False
      have a: "int y + 1 = int (Suc y)" by simp
      have lt: "int y < int (length (buffer s)) - 1" using True by simp
      show ?thesis
        unfolding key_enter_etc_def
        using False True y(2) lt
        by (simp add: y(1) x(1) a py_get_nat py_insert_def py_bound_def and_then_Inr py_len_def
            in_bounds_def nth_append min_def del: of_nat_Suc)
    qed
  next
    case False
    then have nlt: "\<not> int y < int (length (buffer s)) - 1" using y(2) by simp
    have a: "int y + 1 = int (Suc y)" by simp
    have "Suc y = length (buffer s)" using False y(2) by simp
    then show ?thesis
      unfolding key_enter_etc_def
      using nlt by (simp add: y(1) a and_then_Inr py_len_def in_bounds_def nth_append del: of_nat_Suc)
  qed
qed

lemma move_cursor_etc_left_right_in_bounds:
  assumes "in_bounds s" and "wh = ''l'' \<or> wh = ''r''"
  shows "\<exists>s'. move_cursor_etc s wh = Inr s' \<and> in_bounds s'"
proof -
  define y where "y = nat (bufcur_y s)"
  have y: "bufcur_y s = int y" "y < length (buffer s)"
    using assms(1) by (auto simp: in_bounds_def y_def py_len_def)
  show ?thesis
    using assms y
    by (auto simp: move_cursor_etc_def in_bounds_def py_get_nat and_then_Inr py_len_def Let_def)
qed

text \<open>
  C7. The claim: after every navigation command the cursor is in bounds, page down being
  clamped to the document. The test of page down is
  \<^verbatim>\<open>s.bufcur_y + s.win_h - 1 <= bufferlen\<close>: with three lines, a window of height 4
  and the cursor on row 0 the command \<^verbatim>\<open>pd\<close> moves the cursor to row 3, one past the
  last line.
\<close>

theorem pagedown_leaves_document:
  "in_bounds (init_etc\<lparr>buffer := [''a'', ''b'', ''c''], win_h := 4, win_w := 80,
                       cmdmode := True, cmdbuffer := ''pd''\<rparr>) \<and>
   mainloop_etc no_files \<lparr>maxyx = (4, 80), getch = 10\<rparr>
     (init_etc\<lparr>buffer := [''a'', ''b'', ''c''], win_h := 4, win_w := 80, cmdmode := True,
               cmdbuffer := ''pd''\<rparr>)
   = Inr (0, init_etc\<lparr>key := 10, buffer := [''a'', ''b'', ''c''], win_h := 4, win_w := 80,
                     bufofs_y := 3, bufcur_y := 3\<rparr>) \<and>
   \<not> in_bounds (init_etc\<lparr>key := 10, buffer := [''a'', ''b'', ''c''], win_h := 4, win_w := 80,
                         bufofs_y := 3, bufcur_y := 3\<rparr>)"
  by (simp add: render_def mainloop_etc_def do_cmd_etc_def cmd_pagedown_def startswith_def init_etc_def
      in_bounds_def py_len_def and_then_def)

text \<open>
  Other ways out of bounds in the extended variant: \<^verbatim>\<open>g\<close> takes a negative line number,
  \<^verbatim>\<open>g\<close> keeps the column when the new line is shorter, and a move down can land past the
  end of a line of spaces.
\<close>

lemma py_int_minus_1: "py_int ''-1'' 0 = Some (- 1)"
  by (simp add: py_int_def int_space_def pick_base_def has_prefix_def digit_value_def)

lemma py_int_1: "py_int ''1'' 0 = Some 1"
  by (simp add: py_int_def int_space_def pick_base_def has_prefix_def digit_value_def)

lemma goto_negative_line:
  "do_cmd_etc no_files (init_etc\<lparr>cmdbuffer := ''g -1''\<rparr>)
   = Inr (0, init_etc\<lparr>cmdbuffer := ''g -1'', bufcur_y := - 1, bufofs_y := - 1\<rparr>)"
  by (simp add: do_cmd_etc_def cmd_goto_def int_or_raise_def startswith_def init_etc_def
      py_len_def and_then_def py_int_minus_1)

lemma goto_keeps_column:
  "do_cmd_etc no_files (init_etc\<lparr>buffer := [''hello'', []], bufcur_x := 5, cmdbuffer := ''g 1''\<rparr>)
   = Inr (0, init_etc\<lparr>buffer := [''hello'', []], bufcur_x := 5, cmdbuffer := ''g 1'',
                     bufcur_y := 1, bufofs_y := 1\<rparr>)"
  by (simp add: do_cmd_etc_def cmd_goto_def int_or_raise_def startswith_def init_etc_def
      py_len_def and_then_def py_int_1)

lemma vispos2bufpos_past_end: "vispos2bufpos ''   '' 3 3 = 4"
  by (simp add: vispos2bufpos_def py_len_def py_slice_def py_bound_def py_rep_def
      vispos2bufpos_loop.simps numeral_3_eq_3)

lemma py_int_zz: "py_int ''zz'' 16 = None"
  by (simp add: py_int_def int_space_def pick_base_def has_prefix_def digit_value_def)

lemma py_int_x: "py_int ''x'' 0 = None"
  by (simp add: py_int_def int_space_def pick_base_def has_prefix_def digit_value_def)

text \<open>
  C8. The claim: a command whose number does not parse is dropped without an exception
  and without a change of state. Each of the three commands calls \<^verbatim>\<open>int\<close> with nothing
  around the call to catch its ValueError, which leaves \<^verbatim>\<open>do_cmd\<close> and \<^verbatim>\<open>mainloop\<close>; the
  test \<^verbatim>\<open>if cp != None\<close> after the call in \<^verbatim>\<open>u-\<close> is never reached with a failed parse.
\<close>

theorem unparsable_number_raises:
  "mainloop_etc no_files \<lparr>maxyx = (24, 80), getch = 10\<rparr>
     (init_etc\<lparr>cmdmode := True, cmdbuffer := ''u-zz''\<rparr>) = Inl ValueError \<and>
   mainloop_etc no_files \<lparr>maxyx = (24, 80), getch = 10\<rparr>
     (init_etc\<lparr>cmdmode := True, cmdbuffer := ''tabsz x''\<rparr>) = Inl ValueError \<and>
   mainloop_etc no_files \<lparr>maxyx = (24, 80), getch = 10\<rparr>
     (init_etc\<lparr>cmdmode := True, cmdbuffer := ''g x''\<rparr>) = Inl ValueError \<and>
   mainloop_base no_files \<lparr>maxyx = (24, 80), getch = 10\<rparr>
     (init_base\<lparr>cmdmode := True, cmdbuffer := ''u-zz''\<rparr>) = Inl ValueError \<and>
   mainloop_base no_files \<lparr>maxyx = (24, 80), getch = 10\<rparr>
     (init_base\<lparr>cmdmode := True, cmdbuffer := ''tabsz x''\<rparr>) = Inl ValueError"
  by (simp add: render_def mainloop_etc_def mainloop_base_def do_cmd_etc_def do_cmd_base_def
      cmd_codepoint_def cmd_tabsz_def cmd_goto_def int_or_raise_def startswith_def
      init_etc_def init_base_def and_then_def py_int_zz py_int_x)

text \<open>The same for every command string of the three kinds, in the extended variant.\<close>

lemma do_cmd_etc_unparsable:
  assumes "(startswith (cmdbuffer s) ''u-'' \<and> py_int (drop 2 (cmdbuffer s)) 16 = None)
         \<or> (startswith (cmdbuffer s) ''g '' \<and> py_int (drop 2 (cmdbuffer s)) 0 = None)
         \<or> (startswith (cmdbuffer s) ''tabsz '' \<and> py_int (drop 6 (cmdbuffer s)) 0 = None)"
  shows "do_cmd_etc w s = Inl ValueError"
proof -
  have ne: "cmdbuffer s \<noteq> c" if "startswith (cmdbuffer s) p" "\<not> startswith c p" for c p
    using that by auto
  from assms show ?thesis
  proof (elim disjE conjE)
    assume "startswith (cmdbuffer s) ''u-''" "py_int (drop 2 (cmdbuffer s)) 16 = None"
    then show ?thesis
      by (simp add: do_cmd_etc_def cmd_codepoint_def int_or_raise_def and_then_def)
  next
    assume a: "startswith (cmdbuffer s) ''g ''" "py_int (drop 2 (cmdbuffer s)) 0 = None"
    then obtain r where r: "cmdbuffer s = ''g '' @ r"
      by (metis startswith_def append_take_drop_id length_Cons list.size(3))
    show ?thesis using a(2)
      by (simp add: r do_cmd_etc_def cmd_goto_def int_or_raise_def and_then_def startswith_def)
  next
    assume a: "startswith (cmdbuffer s) ''tabsz ''" "py_int (drop 6 (cmdbuffer s)) 0 = None"
    then obtain r where r: "cmdbuffer s = ''tabsz '' @ r"
      by (metis startswith_def append_take_drop_id)
    show ?thesis using a(2)
      by (simp add: r do_cmd_etc_def cmd_tabsz_def int_or_raise_def and_then_def startswith_def)
  qed
qed


section \<open>Properties: the matcher\<close>

lemma eat_result:
  "st' \<in> set (eat ok st) \<Longrightarrow> \<exists>c. ok c \<and> rest st = c # rest st' \<and> caps st' = caps st \<and> prev st' = Some c"
  by (auto simp: eat_def split: list.splits if_splits)

lemma rest_capture: "rest (capture n st st') = rest st'"
  by (simp add: capture_def)

lemma in_cls_plain: "list_all item_plain items \<Longrightarrow> in_cls items c \<Longrightarrow> plain c"
proof (induction items)
  case Nil
  then show ?case by (simp add: in_cls_def)
next
  case (Cons i items)
  then show ?case
    by (cases i) (auto simp: in_cls_def in_item_def plain_def)
qed

lemma star_cases:
  assumes "st' \<in> set (rx_run (Star a) st)"
  obtains "st' = st"
  | st1 where "st1 \<in> set (rx_run a st)" "left st1 < left st" "st' \<in> set (rx_run (Star a) st1)"
proof -
  have "st' \<in> set (concat (map (\<lambda>x. if left x < left st then rx_run (Star a) x else [])
                              (rx_run a st)) @ [st])"
    using assms by (subst (asm) rx_run.simps(10))
  then show ?thesis using that by (auto split: if_splits)
qed

lemma cat_cases:
  assumes "st' \<in> set (rx_run (Cat a b) st)"
  obtains st1 where "st1 \<in> set (rx_run a st)" "st' \<in> set (rx_run b st1)"
  using assms by (auto simp: rx_run.simps(8))

lemma grp_cases:
  assumes "st' \<in> set (rx_run (Grp n a) st)"
  obtains st1 where "st1 \<in> set (rx_run a st)" "st' = capture n st st1"
  using assms by (auto simp: rx_run.simps(12))

text \<open>What a match consumes is a prefix of the input, made of characters the pattern names.\<close>

lemma rx_run_consumes:
  "st' \<in> set (rx_run r st) \<Longrightarrow>
   \<exists>m. rest st = m @ rest st' \<and> (plain_only r \<longrightarrow> list_all plain m)"
proof (induction r st arbitrary: st' rule: rx_run.induct)
  case (1 st)
  then show ?case by (simp add: rx_run.simps(1))
next
  case (2 c st)
  then show ?case by (auto simp: rx_run.simps(2) dest!: eat_result)
next
  case (3 st)
  then show ?case by (auto simp: rx_run.simps(3) dest!: eat_result)
next
  case (4 items st)
  then show ?case by (auto simp: rx_run.simps(4) in_cls_plain dest!: eat_result)
next
  case (5 items st)
  then show ?case by (auto simp: rx_run.simps(5) dest!: eat_result)
next
  case (6 st)
  then show ?case by (auto simp: rx_run.simps(6) dest!: eat_result)
next
  case (7 st)
  then show ?case by (simp add: rx_run.simps(7) split: if_splits)
next
  case (8 a b st)
  from "8.prems" obtain st1 where s1: "st1 \<in> set (rx_run a st)" "st' \<in> set (rx_run b st1)"
    by (rule cat_cases)
  from "8.IH"(1) [OF s1(1)] obtain m1
    where m1: "rest st = m1 @ rest st1" "plain_only a \<longrightarrow> list_all plain m1" by blast
  from "8.IH"(2) [OF s1(1) s1(2)] obtain m2
    where m2: "rest st1 = m2 @ rest st'" "plain_only b \<longrightarrow> list_all plain m2" by blast
  have "rest st = (m1 @ m2) @ rest st'" using m1 m2 by simp
  moreover have "plain_only (Cat a b) \<longrightarrow> list_all plain (m1 @ m2)" using m1 m2 by simp
  ultimately show ?case by blast
next
  case (9 a b st)
  from "9.prems" have "st' \<in> set (rx_run a st) \<or> st' \<in> set (rx_run b st)"
    by (simp add: rx_run.simps(9))
  then show ?case using "9.IH"(1) [of st'] "9.IH"(2) [of st'] by auto
next
  case (10 a st)
  from "10.prems" show ?case
  proof (rule star_cases)
    assume "st' = st"
    then show ?thesis by simp
  next
    fix st1
    assume s1: "st1 \<in> set (rx_run a st)" "left st1 < left st" "st' \<in> set (rx_run (Star a) st1)"
    from "10.IH"(1) [OF s1(1)] obtain m1
      where m1: "rest st = m1 @ rest st1" "plain_only a \<longrightarrow> list_all plain m1" by blast
    from "10.IH"(2) [OF s1] obtain m2
      where m2: "rest st1 = m2 @ rest st'" "plain_only (Star a) \<longrightarrow> list_all plain m2" by blast
    have "rest st = (m1 @ m2) @ rest st'" using m1 m2 by simp
    moreover have "plain_only (Star a) \<longrightarrow> list_all plain (m1 @ m2)" using m1 m2 by simp
    ultimately show ?thesis by blast
  qed
next
  case (11 a st)
  from "11.prems" have "st' \<in> set (rx_run a st) \<or> st' = st"
    by (auto simp: rx_run.simps(11))
  then show ?case using "11.IH" [of st'] by auto
next
  case (12 n a st)
  from "12.prems" obtain st1 where "st1 \<in> set (rx_run a st)" "st' = capture n st st1"
    by (rule grp_cases)
  then show ?case using "12.IH" [of st1] by (simp add: rest_capture)
next
  case (13 a st)
  from "13.prems" have "st' = st" by (simp add: rx_run.simps(13) split: if_splits)
  then show ?case by simp
next
  case (14 a st)
  from "14.prems" have "st' = st" by (simp add: rx_run.simps(14) split: if_splits)
  then show ?case by simp
qed

lemma rx_run_shorter:
  "st' \<in> set (rx_run r st) \<Longrightarrow> left st' \<le> left st"
  using rx_run_consumes [of st' r st] by (auto simp: left_def)

text \<open>A pattern that names a character on every path consumes at least one.\<close>

lemma rx_run_nonnull:
  "nonnull r \<Longrightarrow> st' \<in> set (rx_run r st) \<Longrightarrow> left st' < left st"
proof (induction r arbitrary: st st')
  case (Lit c)
  then show ?case by (auto simp: rx_run.simps(2) left_def dest!: eat_result)
next
  case Dot
  then show ?case by (auto simp: rx_run.simps(3) left_def dest!: eat_result)
next
  case (Cls items)
  then show ?case by (auto simp: rx_run.simps(4) left_def dest!: eat_result)
next
  case (NCls items)
  then show ?case by (auto simp: rx_run.simps(5) left_def dest!: eat_result)
next
  case Spc
  then show ?case by (auto simp: rx_run.simps(6) left_def dest!: eat_result)
next
  case (Cat a b)
  from Cat.prems(2) obtain st1 where s1: "st1 \<in> set (rx_run a st)" "st' \<in> set (rx_run b st1)"
    by (rule cat_cases)
  from Cat.prems(1) have "nonnull a \<or> nonnull b" by simp
  then show ?case
    using Cat.IH(1) [OF _ s1(1)] Cat.IH(2) [OF _ s1(2)]
      rx_run_shorter [OF s1(1)] rx_run_shorter [OF s1(2)]
    by auto
next
  case (Alt a b)
  from Alt.prems(2) have "st' \<in> set (rx_run a st) \<or> st' \<in> set (rx_run b st)"
    by (simp add: rx_run.simps(9))
  then show ?case using Alt.IH Alt.prems(1) by auto
next
  case (Grp n a)
  from Grp.prems(2) obtain st1 where s1: "st1 \<in> set (rx_run a st)" "st' = capture n st st1"
    by (rule grp_cases)
  then show ?case using Grp.IH [OF _ s1(1)] Grp.prems(1) by (simp add: left_def rest_capture)
qed simp_all

section \<open>Properties: marker pairs\<close>

lemma mark_not_plain: "\<not> plain MARK"
  by (simp add: plain_def code_def)

lemma plain_not_mark: "plain c \<Longrightarrow> c \<noteq> MARK"
  using mark_not_plain by auto

lemma wfm_Cons_plain: "c \<noteq> MARK \<Longrightarrow> wfm (c # s) = wfm s"
  by (cases s) simp_all

lemma strip_Cons_plain: "c \<noteq> MARK \<Longrightarrow> strip (c # s) = c # strip s"
  by (cases s) simp_all

lemma wfm_append: "wfm a \<Longrightarrow> wfm (a @ b) = wfm b"
proof (induction a rule: wfm.induct)
  case 1
  then show ?case by simp
next
  case (2 c)
  then show ?case by (simp add: wfm_Cons_plain)
next
  case (3 c d cs)
  then show ?case by (simp split: if_splits)
qed

lemma strip_append: "wfm a \<Longrightarrow> strip (a @ b) = strip a @ strip b"
proof (induction a rule: wfm.induct)
  case 1
  then show ?case by simp
next
  case (2 c)
  then show ?case by (simp add: strip_Cons_plain)
next
  case (3 c d cs)
  then show ?case by (simp split: if_splits)
qed

text \<open>A plain character is never the second byte of a pair: the text before it is well formed.\<close>

lemma wfm_before_plain: "wfm (a @ x # b) \<Longrightarrow> plain x \<Longrightarrow> wfm a"
proof (induction a rule: wfm.induct)
  case 1
  then show ?case by simp
next
  case (2 c)
  then show ?case by (auto split: if_splits)
next
  case (3 c d cs)
  then show ?case by (simp split: if_splits)
qed

lemma wfm_plain_word: "list_all plain m \<Longrightarrow> wfm m \<and> strip m = m"
proof (induction m)
  case Nil
  then show ?case by simp
next
  case (Cons c m)
  then show ?case by (simp add: wfm_Cons_plain strip_Cons_plain plain_not_mark)
qed

lemma wfm_no_mark: "MARK \<notin> set s \<Longrightarrow> wfm s \<and> strip s = s"
proof (induction s)
  case Nil
  then show ?case by simp
next
  case (Cons c s)
  then have "c \<noteq> MARK" by auto
  then show ?case using Cons by (simp add: wfm_Cons_plain strip_Cons_plain)
qed

lemma wfm_pair: "\<not> plain k \<Longrightarrow> wfm [MARK, k] \<and> strip [MARK, k] = []"
  by simp

text \<open>
  Around a word of plain characters the text splits into three well-formed parts, and a
  pair may go in at each of the two seams.
\<close>

lemma wfm_around_word:
  assumes "wfm (pre @ m @ post)" and "m \<noteq> []" and "list_all plain m"
  shows "wfm pre \<and> wfm post"
proof -
  obtain x m' where m: "m = x # m'" using assms(2) by (cases m) auto
  have px: "plain x" using assms(3) m by simp
  have pre: "wfm pre" using wfm_before_plain [of pre x "m' @ post"] assms(1) m px by simp
  have "wfm (m @ post)" using assms(1) pre by (simp add: wfm_append)
  moreover have "wfm m" using assms(3) wfm_plain_word by blast
  ultimately have "wfm post" by (simp add: wfm_append)
  with pre show ?thesis by simp
qed

lemma wrap_word:
  assumes "wfm (pre @ m @ post)" and "m \<noteq> []" and "list_all plain m"
    and "wfm a" and "strip a = []" and "wfm b" and "strip b = []"
  shows "wfm (pre @ (a @ m @ b) @ post) \<and> strip (pre @ (a @ m @ b) @ post) = strip (pre @ m @ post)"
proof -
  have p: "wfm pre" "wfm post" using wfm_around_word [OF assms(1-3)] by simp_all
  have m: "wfm m" "strip m = m" using wfm_plain_word [OF assms(3)] by simp_all
  show ?thesis
    using p m assms(4-7) by (simp add: wfm_append strip_append)
qed

section \<open>Properties: substitution\<close>

lemma rx_match_in_run:
  "rx_match r p s = Some st \<Longrightarrow> st \<in> set (rx_run r \<lparr>prev = p, rest = s, caps = []\<rparr>)"
  by (auto simp: rx_match_def split: list.splits)

text \<open>
  A substitution whose every match is replaced by text with the same stripped content
  keeps the line well formed and keeps its stripped content.
\<close>

lemma re_sub_keeps:
  assumes good: "\<And>p s st pre. rx_match r p s = Some st \<Longrightarrow> wfm (pre @ s) \<Longrightarrow>
            left st < length s \<and> wfm (pre @ expand tpl (caps st) @ rest st) \<and>
            strip (pre @ expand tpl (caps st) @ rest st) = strip (pre @ s)"
    and w: "wfm (pre @ s)"
  shows "wfm (pre @ re_sub r tpl p s) \<and> strip (pre @ re_sub r tpl p s) = strip (pre @ s)"
  using w good
proof (induction r tpl p s arbitrary: pre rule: re_sub.induct)
  case (1 r tpl p s)
  note good = "1.prems"(2)
  show ?case
  proof (cases "rx_match r p s")
    case None
    show ?thesis
    proof (cases s)
      case Nil
      then show ?thesis using None "1.prems"(1) by (subst (1 2) re_sub.simps) simp
    next
      case (Cons c cs)
      have eq: "re_sub r tpl p s = c # re_sub r tpl (Some c) cs"
        using None Cons by (subst re_sub.simps) simp
      have "wfm ((pre @ [c]) @ cs)" using "1.prems"(1) Cons by simp
      from "1.IH"(1) [OF None Cons this good] show ?thesis using eq Cons by simp
    qed
  next
    case (Some st)
    from good [OF Some "1.prems"(1)] have
      lt: "left st < length s" and
      w: "wfm ((pre @ expand tpl (caps st)) @ rest st)" and
      e: "strip (pre @ expand tpl (caps st) @ rest st) = strip (pre @ s)"
      by simp_all
    have eq: "re_sub r tpl p s = expand tpl (caps st) @ re_sub r tpl (prev st) (rest st)"
      using Some lt by (subst re_sub.simps) simp
    from "1.IH"(2) [OF Some lt w good] show ?thesis using eq e by simp
  qed
qed

lemma sub_keeps:
  assumes "\<And>p s st pre. rx_match r p s = Some st \<Longrightarrow> wfm (pre @ s) \<Longrightarrow>
            left st < length s \<and> wfm (pre @ expand tpl (caps st) @ rest st) \<and>
            strip (pre @ expand tpl (caps st) @ rest st) = strip (pre @ s)"
    and "wfm line"
  shows "wfm (sub r tpl line) \<and> strip (sub r tpl line) = strip line"
  using re_sub_keeps [of r tpl "[]" line None, OF assms(1)] assms(2) by (simp add: sub_def)

text \<open>The shapes of the patterns: where group 1 sits.\<close>

lemma bnd_cases:
  assumes "st' \<in> set (rx_run Bnd st)"
  shows "st' = st"
  using assms by (simp add: rx_run.simps(7) split: if_splits)

lemma shape_bounded_word:
  assumes "st' \<in> set (rx_run (cats [Bnd, Grp 1 a, Bnd]) st)"
  shows "\<exists>st1 \<in> set (rx_run a st). st' = capture 1 st st1"
proof -
  from assms have "st' \<in> set (rx_run (Cat Bnd (Cat (Grp 1 a) Bnd)) st)" by simp
  then obtain s1 where s1: "s1 \<in> set (rx_run Bnd st)" "st' \<in> set (rx_run (Cat (Grp 1 a) Bnd) s1)"
    by (rule cat_cases)
  then obtain s2 where s2: "s2 \<in> set (rx_run (Grp 1 a) st)" "st' \<in> set (rx_run Bnd s2)"
    using bnd_cases [OF s1(1)] by (auto elim: cat_cases)
  then show ?thesis using bnd_cases [OF s2(2)] by (auto elim: grp_cases)
qed

lemma shape_left_bounded:
  assumes "st' \<in> set (rx_run (cats [Bnd, Grp 1 a]) st)"
  shows "\<exists>st1 \<in> set (rx_run a st). st' = capture 1 st st1"
proof -
  from assms have "st' \<in> set (rx_run (Cat Bnd (Grp 1 a)) st)" by simp
  then obtain s1 where s1: "s1 \<in> set (rx_run Bnd st)" "st' \<in> set (rx_run (Grp 1 a) s1)"
    by (rule cat_cases)
  then show ?thesis using bnd_cases [OF s1(1)] by (auto elim: grp_cases)
qed

lemma shape_group:
  assumes "st' \<in> set (rx_run (Grp 1 a) st)"
  shows "\<exists>st1 \<in> set (rx_run a st). st' = capture 1 st st1"
  using assms by (auto elim: grp_cases)

text \<open>
  A match of such a pattern is a non-empty word of plain characters, and group 1 is that
  word.
\<close>

lemma word_match:
  assumes run: "\<And>st st'. st' \<in> set (rx_run r st) \<Longrightarrow> \<exists>st1 \<in> set (rx_run a st). st' = capture 1 st st1"
    and a: "plain_only a" "nonnull a"
    and m: "rx_match r p s = Some st"
  shows "\<exists>m. s = m @ rest st \<and> m \<noteq> [] \<and> list_all plain m \<and> group (caps st) 1 = m"
proof -
  define st0 where "st0 = \<lparr>prev = p, rest = s, caps = []\<rparr>"
  from run [OF rx_match_in_run [OF m]] obtain st1
    where s1: "st1 \<in> set (rx_run a st0)" "st = capture 1 st0 st1"
    by (auto simp: st0_def)
  from rx_run_consumes [OF s1(1)] a(1) obtain w
    where w: "rest st0 = w @ rest st1" "list_all plain w" by auto
  have lt: "left st1 < left st0" using rx_run_nonnull [OF a(2) s1(1)] .
  have "s = w @ rest st" using w(1) s1(2) by (simp add: st0_def rest_capture)
  moreover have "w \<noteq> []" using lt w(1) by (auto simp: left_def)
  moreover have "group (caps st) 1 = w"
    using s1(2) w(1) by (simp add: capture_def group_def left_def)
  ultimately show ?thesis using w(2) by blast
qed

lemma word_good:
  assumes run: "\<And>st st'. st' \<in> set (rx_run r st) \<Longrightarrow> \<exists>st1 \<in> set (rx_run a st). st' = capture 1 st st1"
    and a: "plain_only a" "nonnull a"
    and tpl: "\<And>g. expand tpl g = op @ group g 1 @ cl"
    and op: "wfm op" "strip op = []" and cl: "wfm cl" "strip cl = []"
    and m: "rx_match r p s = Some st" and w: "wfm (pre @ s)"
  shows "left st < length s \<and> wfm (pre @ expand tpl (caps st) @ rest st) \<and>
         strip (pre @ expand tpl (caps st) @ rest st) = strip (pre @ s)"
proof -
  from word_match [of r a, OF run a m] obtain m
    where m: "s = m @ rest st" "m \<noteq> []" "list_all plain m" "group (caps st) 1 = m"
    by blast
  have "wfm (pre @ m @ rest st)" using w m(1) by simp
  from wrap_word [OF this m(2) m(3) op cl] have
    "wfm (pre @ (op @ m @ cl) @ rest st) \<and>
     strip (pre @ (op @ m @ cl) @ rest st) = strip (pre @ m @ rest st)" .
  moreover have "left st < length s"
  proof -
    have "length s = length m + length (rest st)" using m(1) by (metis length_append)
    then show ?thesis using m(2) by (simp add: left_def)
  qed
  ultimately show ?thesis using m(1) m(4) tpl by simp
qed

lemma rx_run_keeps_group:
  "n \<notin> set (grps r) \<Longrightarrow> st' \<in> set (rx_run r st) \<Longrightarrow> map_of (caps st') n = map_of (caps st) n"
proof (induction r st arbitrary: st' rule: rx_run.induct)
  case (1 st)
  then show ?case by (simp add: rx_run.simps(1))
next
  case (2 c st)
  then show ?case by (auto simp: rx_run.simps(2) dest!: eat_result)
next
  case (3 st)
  then show ?case by (auto simp: rx_run.simps(3) dest!: eat_result)
next
  case (4 items st)
  then show ?case by (auto simp: rx_run.simps(4) dest!: eat_result)
next
  case (5 items st)
  then show ?case by (auto simp: rx_run.simps(5) dest!: eat_result)
next
  case (6 st)
  then show ?case by (auto simp: rx_run.simps(6) dest!: eat_result)
next
  case (7 st)
  then show ?case by (simp add: rx_run.simps(7) split: if_splits)
next
  case (8 a b st)
  from "8.prems"(2) obtain st1 where s1: "st1 \<in> set (rx_run a st)" "st' \<in> set (rx_run b st1)"
    by (rule cat_cases)
  from "8.prems"(1) have n: "n \<notin> set (grps a)" "n \<notin> set (grps b)" by simp_all
  from "8.IH"(1) [OF n(1) s1(1)] "8.IH"(2) [OF s1(1) n(2) s1(2)] show ?case by simp
next
  case (9 a b st)
  from "9.prems"(2) have "st' \<in> set (rx_run a st) \<or> st' \<in> set (rx_run b st)"
    by (simp add: rx_run.simps(9))
  then show ?case using "9.IH"(1) [of st'] "9.IH"(2) [of st'] "9.prems"(1) by auto
next
  case (10 a st)
  from "10.prems"(2) show ?case
  proof (rule star_cases)
    assume "st' = st"
    then show ?thesis by simp
  next
    fix st1
    assume s1: "st1 \<in> set (rx_run a st)" "left st1 < left st" "st' \<in> set (rx_run (Star a) st1)"
    from "10.prems"(1) have n: "n \<notin> set (grps a)" by simp
    from "10.IH"(1) [OF n s1(1)] "10.IH"(2) [OF s1(1) s1(2) "10.prems"(1) s1(3)]
    show ?thesis by simp
  qed
next
  case (11 a st)
  from "11.prems"(2) have "st' \<in> set (rx_run a st) \<or> st' = st"
    by (auto simp: rx_run.simps(11))
  then show ?case using "11.IH" [of st'] "11.prems"(1) by auto
next
  case (12 k a st)
  from "12.prems"(2) obtain st1 where s1: "st1 \<in> set (rx_run a st)" "st' = capture k st st1"
    by (rule grp_cases)
  from "12.prems"(1) have n: "n \<noteq> k" "n \<notin> set (grps a)" by simp_all
  from "12.IH" [OF n(2) s1(1)] show ?case using s1(2) n(1) by (simp add: capture_def)
next
  case (13 a st)
  from "13.prems"(2) have "st' = st" by (simp add: rx_run.simps(13) split: if_splits)
  then show ?case by simp
next
  case (14 a st)
  from "14.prems"(2) have "st' = st" by (simp add: rx_run.simps(14) split: if_splits)
  then show ?case by simp
qed

lemma lit_cases:
  assumes "st' \<in> set (rx_run (Lit q) st)"
  shows "rest st = q # rest st' \<and> caps st' = caps st"
  using assms by (auto simp: rx_run.simps(2) dest!: eat_result)

lemma grp_lit_cases:
  assumes "st' \<in> set (rx_run (Grp k (Lit q)) st)"
  shows "rest st = q # rest st' \<and> caps st' = (k, [q]) # caps st"
proof -
  from assms obtain s1 where s1: "s1 \<in> set (rx_run (Lit q) st)" "st' = capture k st s1"
    by (rule grp_cases)
  from lit_cases [OF s1(1)] show ?thesis
    using s1(2) by (simp add: capture_def left_def)
qed

text \<open>
  The two quoted patterns: a match is the quote, a body and the quote again; groups 1 and
  \<open>n\<close> are the quotes and group 2 is the body.
\<close>

lemma quoted_match:
  assumes m: "rx_match (cats [NotAhead x, Grp 1 (Lit q), Grp 2 b, Grp n (Lit q)]) p s = Some st"
    and g: "1 \<notin> set (grps b)" and n: "n \<noteq> 1" "n \<noteq> 2"
  shows "\<exists>body. s = q # body @ q # rest st \<and> group (caps st) 1 = [q] \<and>
           group (caps st) 2 = body \<and> group (caps st) n = [q]"
proof -
  define st0 where "st0 = \<lparr>prev = p, rest = s, caps = []\<rparr>"
  have "st \<in> set (rx_run (Cat (NotAhead x) (Cat (Grp 1 (Lit q)) (Cat (Grp 2 b) (Grp n (Lit q))))) st0)"
    using rx_match_in_run [OF m] by (simp add: st0_def)
  then obtain s1 where s1: "s1 \<in> set (rx_run (NotAhead x) st0)"
      "st \<in> set (rx_run (Cat (Grp 1 (Lit q)) (Cat (Grp 2 b) (Grp n (Lit q)))) s1)"
    by (rule cat_cases)
  have e1: "s1 = st0" using s1(1) by (simp add: rx_run.simps(14) split: if_splits)
  from s1(2) obtain s2 where s2: "s2 \<in> set (rx_run (Grp 1 (Lit q)) st0)"
      "st \<in> set (rx_run (Cat (Grp 2 b) (Grp n (Lit q))) s2)"
    unfolding e1 by (rule cat_cases)
  from s2(2) obtain s3 where s3: "s3 \<in> set (rx_run (Grp 2 b) s2)"
      "st \<in> set (rx_run (Grp n (Lit q)) s3)"
    by (rule cat_cases)
  from s3(1) obtain s3' where s3': "s3' \<in> set (rx_run b s2)" "s3 = capture 2 s2 s3'"
    by (rule grp_cases)
  from grp_lit_cases [OF s2(1)] have r2: "s = q # rest s2" "caps s2 = [(1, [q])]"
    by (simp_all add: st0_def)
  from rx_run_consumes [OF s3'(1)] obtain body where body: "rest s2 = body @ rest s3'" by blast
  have k: "map_of (caps s3') 1 = Some [q]"
    using rx_run_keeps_group [OF g s3'(1)] r2(2) by simp
  have r3: "rest s3 = rest s3'" "caps s3 = (2, body) # caps s3'"
    using s3'(2) body by (simp_all add: capture_def left_def)
  from grp_lit_cases [OF s3(2)] have r4: "rest s3 = q # rest st" "caps st = (n, [q]) # caps s3"
    by simp_all
  have "s = q # body @ q # rest st" using r2(1) body r3(1) r4(1) by simp
  moreover have "group (caps st) 1 = [q]" using r4(2) r3(2) k n by (simp add: group_def)
  moreover have "group (caps st) 2 = body" using r4(2) r3(2) n by (simp add: group_def)
  moreover have "group (caps st) n = [q]" using r4(2) by (simp add: group_def)
  ultimately show ?thesis by blast
qed

lemma quoted_good:
  assumes m: "rx_match (cats [NotAhead x, Grp 1 (Lit q), Grp 2 b, Grp n (Lit q)]) p s = Some st"
    and g: "1 \<notin> set (grps b)" and n: "n \<noteq> 1" "n \<noteq> 2" and q: "plain q"
    and w: "wfm (pre @ s)"
  shows "left st < length s \<and> wfm (pre @ expand (quoted n) (caps st) @ rest st) \<and>
         strip (pre @ expand (quoted n) (caps st) @ rest st) = strip (pre @ s)"
proof -
  from quoted_match [OF m g n] obtain body where
    b: "s = q # body @ q # rest st" "group (caps st) 1 = [q]"
       "group (caps st) 2 = body" "group (caps st) n = [q]"
    by blast
  have qm: "q \<noteq> MARK" using q by (rule plain_not_mark)
  have p1: "wfm pre" using wfm_before_plain [of pre q "body @ q # rest st"] w b(1) q by simp
  have "wfm (q # body @ q # rest st)" using w b(1) p1 by (simp add: wfm_append)
  then have w2: "wfm (body @ q # rest st)" using qm by (simp add: wfm_Cons_plain)
  have p2: "wfm body" using wfm_before_plain [OF w2 q] .
  have "wfm (q # rest st)" using w2 p2 by (simp add: wfm_append)
  then have p3: "wfm (rest st)" using qm by (simp add: wfm_Cons_plain)
  have np: "\<not> plain (CHR 0x07)" "\<not> plain (CHR 0x06)" "\<not> plain (CHR 0x19)" "\<not> plain MARK"
    by (simp_all add: plain_def code_def)
  have ex: "expand (quoted n) (caps st)
            = [MARK, CHR 0x07] @ [q] @ [MARK, MARK] @ [MARK, CHR 0x06] @ body
              @ [MARK, CHR 0x19] @ [MARK, CHR 0x07] @ [q] @ [MARK, MARK]"
    using b(2-4) by (simp add: quoted_def)
  have wq: "wfm [q]" "strip [q] = [q]" using qm by simp_all
  have w1: "wfm (pre @ expand (quoted n) (caps st) @ rest st)"
    unfolding ex using p1 p2 p3 np wq(1)
    by (simp add: wfm_append wfm_Cons_plain qm)
  have s1: "strip (pre @ expand (quoted n) (caps st) @ rest st)
            = strip pre @ q # strip body @ q # strip (rest st)"
    unfolding ex using p1 p2 p3 np qm
    by (simp add: strip_append strip_Cons_plain)
  have s2: "strip (pre @ s) = strip pre @ q # strip body @ q # strip (rest st)"
    unfolding b(1) using p1 p2 qm
    by (simp add: strip_append strip_Cons_plain)
  have "length s = Suc (length body + Suc (length (rest st)))"
    by (subst b(1)) simp
  then have "left st < length s" by (simp add: left_def)
  then show ?thesis using w1 s1 s2 by simp
qed

lemma plain_only_cats: "plain_only (cats rs) = list_all plain_only rs"
  by (induction rs rule: cats.induct) simp_all

lemma nonnull_cats: "nonnull (cats rs) = list_ex nonnull rs"
  by (induction rs rule: cats.induct) simp_all

lemma plain_only_alts: "plain_only (alts rs) = list_all plain_only rs"
  by (induction rs rule: alts.induct) simp_all

lemma nonnull_alts: "nonnull (alts rs) = (rs \<noteq> [] \<and> list_all nonnull rs)"
  by (induction rs rule: alts.induct) simp_all

lemma plain_only_lits: "plain_only (lits s) = list_all plain s"
  by (simp add: lits_def plain_only_cats list_all_iff)

lemma nonnull_lits: "nonnull (lits s) = (s \<noteq> [])"
  by (cases s) (simp_all add: lits_def nonnull_cats)

lemma plain_only_words: "plain_only (words ws) = list_all (list_all plain) ws"
  by (simp add: words_def plain_only_alts plain_only_lits list_all_iff)

lemma nonnull_words: "nonnull (words ws) = (ws \<noteq> [] \<and> list_all (\<lambda>w. w \<noteq> []) ws)"
  by (simp add: words_def nonnull_alts nonnull_lits list_all_iff)

lemmas pattern_eval = plain_only_cats nonnull_cats plain_only_alts nonnull_alts
  plain_only_lits nonnull_lits plain_only_words nonnull_words
  more_digits_def hexdigit_def bindigit_def decdigit_def plain_def code_def

lemma wrap_good:
  assumes run: "\<And>st st'. st' \<in> set (rx_run r st) \<Longrightarrow> \<exists>st1 \<in> set (rx_run a st). st' = capture 1 st st1"
    and a: "plain_only a" "nonnull a" and k: "k < 32"
    and m: "rx_match r p s = Some st" and w: "wfm (pre @ s)"
  shows "left st < length s \<and> wfm (pre @ expand (wrap k) (caps st) @ rest st) \<and>
         strip (pre @ expand (wrap k) (caps st) @ rest st) = strip (pre @ s)"
proof (rule word_good [where op = "[MARK, char_of k]" and cl = "[MARK, MARK]", OF run a _ _ _ _ _ m w])
  show "\<And>g. expand (wrap k) g = [MARK, char_of k] @ group g 1 @ [MARK, MARK]"
    by (simp add: wrap_def)
  have "\<not> plain (char_of k)" using k by (simp add: plain_def code_def)
  then show "wfm [MARK, char_of k]" by simp
  show "strip [MARK, char_of k] = []" by simp
  show "wfm [MARK, MARK]" by (simp add: mark_not_plain)
  show "strip [MARK, MARK] = []" by simp
qed

lemma commentopen_good:
  assumes "rx_match expr_commentopen p s = Some st" and "wfm (pre @ s)"
  shows "left st < length s \<and>
         wfm (pre @ expand [Txt [MARK, CHR 0x0A], Ref 1] (caps st) @ rest st) \<and>
         strip (pre @ expand [Txt [MARK, CHR 0x0A], Ref 1] (caps st) @ rest st) = strip (pre @ s)"
proof (rule word_good [where op = "[MARK, CHR 0x0A]" and cl = "[]" and a = "lits ''/*''",
      OF _ _ _ _ _ _ _ _ assms(1) assms(2)])
  show "\<And>st st'. st' \<in> set (rx_run expr_commentopen st) \<Longrightarrow>
          \<exists>st1\<in>set (rx_run (lits ''/*'') st). st' = capture 1 st st1"
    unfolding expr_commentopen_def by (rule shape_group)
  show "plain_only (lits ''/*'')" by (simp add: pattern_eval)
  show "nonnull (lits ''/*'')" by (simp add: pattern_eval)
  show "\<And>g. expand [Txt [MARK, CHR 0x0A], Ref 1] g = [MARK, CHR 0x0A] @ group g 1 @ []"
    by simp
  show "wfm [MARK, CHR 0x0A]" by (simp add: plain_def code_def)
qed simp_all

lemma commentclos_good:
  assumes "rx_match expr_commentclos p s = Some st" and "wfm (pre @ s)"
  shows "left st < length s \<and>
         wfm (pre @ expand [Ref 1, Txt [MARK, CHR 0x19]] (caps st) @ rest st) \<and>
         strip (pre @ expand [Ref 1, Txt [MARK, CHR 0x19]] (caps st) @ rest st) = strip (pre @ s)"
proof (rule word_good [where op = "[]" and cl = "[MARK, CHR 0x19]" and a = "lits ''*/''",
      OF _ _ _ _ _ _ _ _ assms(1) assms(2)])
  show "\<And>st st'. st' \<in> set (rx_run expr_commentclos st) \<Longrightarrow>
          \<exists>st1\<in>set (rx_run (lits ''*/'') st). st' = capture 1 st st1"
    unfolding expr_commentclos_def by (rule shape_group)
  show "plain_only (lits ''*/'')" by (simp add: pattern_eval)
  show "nonnull (lits ''*/'')" by (simp add: pattern_eval)
  show "\<And>g. expand [Ref 1, Txt [MARK, CHR 0x19]] g = [] @ group g 1 @ [MARK, CHR 0x19]"
    by simp
  show "wfm [MARK, CHR 0x19]" by (simp add: plain_def code_def)
qed simp_all

lemma symbol_good:
  assumes "rx_match expr_symbol p s = Some st" and "wfm (pre @ s)"
  shows "left st < length s \<and> wfm (pre @ expand (wrap 11) (caps st) @ rest st) \<and>
         strip (pre @ expand (wrap 11) (caps st) @ rest st) = strip (pre @ s)"
  by (rule wrap_good [OF shape_group _ _ _ assms(1) [unfolded expr_symbol_def] assms(2)])
     (simp add: pattern_eval)+

lemma constants_good:
  assumes "rx_match expr_constants p s = Some st" and "wfm (pre @ s)"
  shows "left st < length s \<and> wfm (pre @ expand (wrap 9) (caps st) @ rest st) \<and>
         strip (pre @ expand (wrap 9) (caps st) @ rest st) = strip (pre @ s)"
  by (rule wrap_good [OF shape_group _ _ _ assms(1) [unfolded expr_constants_def] assms(2)])
     (simp add: pattern_eval)+

lemma keyword_good:
  assumes "rx_match expr_keyword p s = Some st" and "wfm (pre @ s)"
  shows "left st < length s \<and> wfm (pre @ expand (wrap 3) (caps st) @ rest st) \<and>
         strip (pre @ expand (wrap 3) (caps st) @ rest st) = strip (pre @ s)"
  by (rule wrap_good [OF shape_bounded_word _ _ _ assms(1) [unfolded expr_keyword_def] assms(2)])
     (simp add: pattern_eval)+

lemma type_good:
  assumes "rx_match expr_type p s = Some st" and "wfm (pre @ s)"
  shows "left st < length s \<and> wfm (pre @ expand (wrap 5) (caps st) @ rest st) \<and>
         strip (pre @ expand (wrap 5) (caps st) @ rest st) = strip (pre @ s)"
  by (rule wrap_good [OF shape_bounded_word _ _ _ assms(1) [unfolded expr_type_def] assms(2)])
     (simp add: pattern_eval)+

lemma numeric_good:
  assumes "rx_match expr_numeric p s = Some st" and "wfm (pre @ s)"
  shows "left st < length s \<and> wfm (pre @ expand (wrap 8) (caps st) @ rest st) \<and>
         strip (pre @ expand (wrap 8) (caps st) @ rest st) = strip (pre @ s)"
  by (rule wrap_good [OF shape_bounded_word _ _ _ assms(1) [unfolded expr_numeric_def] assms(2)])
     (simp add: pattern_eval)+

lemma function_good:
  assumes "rx_match expr_function p s = Some st" and "wfm (pre @ s)"
  shows "left st < length s \<and> wfm (pre @ expand (wrap 4) (caps st) @ rest st) \<and>
         strip (pre @ expand (wrap 4) (caps st) @ rest st) = strip (pre @ s)"
  by (rule wrap_good [OF shape_left_bounded _ _ _ assms(1) [unfolded expr_function_def] assms(2)])
     (simp add: pattern_eval)+

lemma string_good:
  assumes "rx_match expr_string p s = Some st" and "wfm (pre @ s)"
  shows "left st < length s \<and> wfm (pre @ expand (quoted 4) (caps st) @ rest st) \<and>
         strip (pre @ expand (quoted 4) (caps st) @ rest st) = strip (pre @ s)"
  using assms(1) unfolding expr_string_def
  by (rule quoted_good [OF _ _ _ _ _ assms(2)]) (simp add: pattern_eval)+

lemma char_good:
  assumes "rx_match expr_char p s = Some st" and "wfm (pre @ s)"
  shows "left st < length s \<and> wfm (pre @ expand (quoted 3) (caps st) @ rest st) \<and>
         strip (pre @ expand (quoted 3) (caps st) @ rest st) = strip (pre @ s)"
  using assms(1) unfolding expr_char_def
  by (rule quoted_good [OF _ _ _ _ _ assms(2)]) (simp add: pattern_eval)+


text \<open>
  C10. For a line without the marker byte, removing from \<^verbatim>\<open>decor_syntax(line)\<close>, from the
  left, every marker byte with the byte that follows it gives the line back: the
  tokenizer only puts two-byte pairs between the characters of the line.
\<close>

theorem decor_syntax_strip:
  "MARK \<notin> set line \<Longrightarrow> strip (decor_syntax line) = line"
proof -
  assume "MARK \<notin> set line"
  then have l0: "wfm line \<and> strip line = line" by (rule wfm_no_mark)
  define l1 where "l1 = sub expr_commentopen [Txt [MARK, CHR 0x0A], Ref 1] line"
  define l2 where "l2 = sub expr_commentclos [Ref 1, Txt [MARK, CHR 0x19]] l1"
  define l3 where "l3 = sub expr_string (quoted 4) l2"
  define l4 where "l4 = sub expr_char (quoted 3) l3"
  define l5 where "l5 = sub expr_symbol (wrap 11) l4"
  define l6 where "l6 = sub expr_numeric (wrap 8) l5"
  define l7 where "l7 = sub expr_keyword (wrap 3) l6"
  define l8 where "l8 = sub expr_type (wrap 5) l7"
  define l9 where "l9 = sub expr_constants (wrap 9) l8"
  define l10 where "l10 = sub expr_function (wrap 4) l9"
  have 1: "wfm l1 \<and> strip l1 = line"
    unfolding l1_def using sub_keeps [OF commentopen_good] l0 by simp
  have 2: "wfm l2 \<and> strip l2 = line"
    unfolding l2_def using sub_keeps [OF commentclos_good] 1 by simp
  have 3: "wfm l3 \<and> strip l3 = line"
    unfolding l3_def using sub_keeps [OF string_good] 2 by simp
  have 4: "wfm l4 \<and> strip l4 = line"
    unfolding l4_def using sub_keeps [OF char_good] 3 by simp
  have 5: "wfm l5 \<and> strip l5 = line"
    unfolding l5_def using sub_keeps [OF symbol_good] 4 by simp
  have 6: "wfm l6 \<and> strip l6 = line"
    unfolding l6_def using sub_keeps [OF numeric_good] 5 by simp
  have 7: "wfm l7 \<and> strip l7 = line"
    unfolding l7_def using sub_keeps [OF keyword_good] 6 by simp
  have 8: "wfm l8 \<and> strip l8 = line"
    unfolding l8_def using sub_keeps [OF type_good] 7 by simp
  have 9: "wfm l9 \<and> strip l9 = line"
    unfolding l9_def using sub_keeps [OF constants_good] 8 by simp
  have 10: "wfm l10 \<and> strip l10 = line"
    unfolding l10_def using sub_keeps [OF function_good] 9 by simp
  have "decor_syntax line = l10"
    by (simp add: decor_syntax_def l1_def l2_def l3_def l4_def l5_def l6_def l7_def l8_def
        l9_def l10_def)
  then show ?thesis using 10 by simp
qed

theorem decor_syntax_strip_witness:
  "MARK \<notin> set ''if(x)'' \<and> strip (decor_syntax ''if(x)'') = ''if(x)''"
proof -
  have h: "MARK \<notin> set ''if(x)''" by simp
  show ?thesis using h decor_syntax_strip [OF h] by simp
qed

section \<open>Properties: painting\<close>

lemma decor_syntax_example:
  "decor_syntax ''/* a */ int x = 1;'' =
   [MARK, CHR 0x0A, MARK, CHR 0x0B, CHR ''/'', MARK, MARK, MARK, CHR 0x0B, CHR ''*'', MARK, MARK,
    CHR '' '', CHR ''a'', CHR '' '',
    MARK, CHR 0x0B, CHR ''*'', MARK, MARK, MARK, CHR 0x0B, CHR ''/'', MARK, MARK, MARK, CHR 0x19,
    CHR '' '', MARK, CHR 0x05, CHR ''i'', CHR ''n'', CHR ''t'', MARK, MARK,
    CHR '' '', CHR ''x'', CHR '' '', MARK, CHR 0x0B, CHR ''='', MARK, MARK, CHR '' '',
    MARK, CHR 0x08, CHR ''1'', MARK, MARK, MARK, CHR 0x0B, CHR '';'', MARK, MARK]"
  by code_simp

text \<open>
  C9. The line \<^verbatim>\<open>/* a */ int x = 1;\<close> in a window of 80 columns, painted from the default
  colour: the seven characters of the comment in pair 10, although the tokenizer wraps
  the \<^verbatim>\<open>/\<close> and \<^verbatim>\<open>*\<close> inside it as symbols (group 11); then \<^verbatim>\<open>int\<close> in pair 5, the type
  keywords; then text in the default pair 1; then \<^verbatim>\<open>1\<close> in pair 8, the numeric literals.
  The spans the claim names come in its order; between them and after them \<^verbatim>\<open>=\<close> and
  \<^verbatim>\<open>;\<close> are painted as symbols, and the comment has ended its exclusive region.
\<close>

theorem render_row_example:
  "render_row (init_etc\<lparr>win_w := 80, win_h := 24\<rparr>) False 1 ''/* a */ int x = 1;''
   = (map (Pair 10) ''/* a */'' @ [(1, CHR '' '')] @ map (Pair 5) ''int''
      @ map (Pair 1) '' x '' @ [(11, CHR ''='')] @ [(1, CHR '' '')] @ [(8, CHR ''1'')]
      @ [(11, CHR '';'')],
      False, 1)"
proof -
  have "visible_text (init_etc\<lparr>win_w := 80, win_h := 24\<rparr>) ''/* a */ int x = 1;''
        = ''/* a */ int x = 1;''"
    by (simp add: visible_text_def expand_tabs_def init_etc_def py_slice_def py_bound_def
        py_len_def)
  then show ?thesis
    by (simp add: render_row_def decor_syntax_example utf8_le_def code_def)
qed


end
